theory Spec2Isabelle
  imports Main "HOL-Library.Word"
begin

unbundle bit_operations_syntax

section \<open>The open-file engine of asymmetricfs (implementation.cpp)\<close>

text \<open>
  The theory embeds the callbacks of \<^verbatim>\<open>class asymmetricfs\<close> and of its nested
  \<^verbatim>\<open>class internal\<close> as functions on an explicit filesystem state.

  \<^item> A callback that returns normally yields \<open>Some (ret, state')\<close> with the C return
    value \<open>ret\<close>; a failed \<^verbatim>\<open>assert\<close> or a read outside a mapping yields \<open>None\<close>
    (the process stops).
  \<^item> The host system (the system calls on the backing directory and the \<^verbatim>\<open>gpg\<close>
    child run through \<^verbatim>\<open>class subprocess\<close>) is not part of the sources. It is a
    parameter: a record of functions over an arbitrary host state \<open>'h\<close>. A failing
    system call is \<open>Inl errno\<close>, a successful one \<open>Inr result\<close>.
  \<^item> A data member whose C++ name ends in an underscore (\<^verbatim>\<open>read_\<close>, \<^verbatim>\<open>next_\<close>,
    \<^verbatim>\<open>open_fds_\<close>, ...) carries the suffix \<open>m\<close> here (\<open>read_m\<close>, \<open>next_m\<close>,
    \<open>open_fds_m\<close>), since a name cannot end in an underscore.
  \<^item> \<^verbatim>\<open>size_t\<close> is \<open>nat\<close> and \<^verbatim>\<open>off_t\<close> is \<open>int\<close>, with the wrap-around of the 64-bit
    \<^verbatim>\<open>size_t\<close> written out where a sum is formed from caller-supplied values;
    \<^verbatim>\<open>unsigned references\<close> is a 32-bit word; a conversion to the \<^verbatim>\<open>int\<close> return type is
    written out (\<open>to_int\<close>). A \<^verbatim>\<open>std::string\<close> of bytes is a \<open>string\<close>.
  \<^item> \<^verbatim>\<open>std::string::resize\<close> to a caller-supplied length can throw; no callback catches
    the exception, so the process stops: \<open>None\<close>.
\<close>

subsection \<open>Constants of the system headers (Linux values)\<close>

definition O_RDONLY :: int where "O_RDONLY = 0"
definition O_WRONLY :: int where "O_WRONLY = 1"
definition O_RDWR :: int where "O_RDWR = 2"
definition O_ACCMODE :: int where "O_ACCMODE = 3"
definition O_CREAT :: int where "O_CREAT = 64"
definition O_EXCL :: int where "O_EXCL = 128"
definition O_TRUNC :: int where "O_TRUNC = 512"
definition O_APPEND :: int where "O_APPEND = 1024"

definition R_OK :: int where "R_OK = 4"

definition EPERM :: int where "EPERM = 1"
definition ENOENT :: int where "ENOENT = 2"
definition EIO :: int where "EIO = 5"
definition EBADF :: int where "EBADF = 9"
definition EACCES :: int where "EACCES = 13"
definition EFAULT :: int where "EFAULT = 14"
definition EEXIST :: int where "EEXIST = 17"
definition EINVAL :: int where "EINVAL = 22"

definition INT_MAX :: nat where "INT_MAX = 2147483647"

text \<open>\<^verbatim>\<open>static_cast<int>\<close> of a \<^verbatim>\<open>size_t\<close>: the low 32 bits, read as signed.\<close>

definition to_int :: "nat \<Rightarrow> int" where
  "to_int n = sint (word_of_nat n :: 32 word)"

subsection \<open>The host: system calls and the gpg child\<close>

text \<open>\<^verbatim>\<open>struct stat\<close>, as far as the code reads it.\<close>

record stat =
  st_size :: int
  st_mode :: int

text \<open>
  The standard input handed to a decrypting \<^verbatim>\<open>gpg\<close>: a descriptor
  (\<^verbatim>\<open>gpg_stdin = fd\<close>) or the bytes written through the pipe.
\<close>

datatype gpg_stdin = Stdin_fd int | Stdin_bytes string

text \<open>
  What one decrypting child does to \<^verbatim>\<open>load_buffer\<close>'s inner \<^verbatim>\<open>while (true)\<close> loop:
  the bytes the loop leaves appended to \<^verbatim>\<open>buffer\<close>, the first nonzero result of
  \<^verbatim>\<open>communicate\<close> (0 when there is none), and the result of \<^verbatim>\<open>wait\<close>.
\<close>

record decrypt_result =
  dr_out :: string
  dr_cret :: int
  dr_wait :: int

record 'h host_ops =
  h_openat :: "'h \<Rightarrow> string \<Rightarrow> int \<Rightarrow> int option \<Rightarrow> (int + int) \<times> 'h"
  h_open :: "'h \<Rightarrow> string \<Rightarrow> int \<Rightarrow> (int + int) \<times> 'h"
  h_close :: "'h \<Rightarrow> int \<Rightarrow> (int + unit) \<times> 'h"
  h_fstat :: "'h \<Rightarrow> int \<Rightarrow> int + stat"
  h_ftruncate :: "'h \<Rightarrow> int \<Rightarrow> int \<Rightarrow> (int + unit) \<times> 'h"
  h_truncate :: "'h \<Rightarrow> string \<Rightarrow> int \<Rightarrow> (int + unit) \<times> 'h"
  h_rename :: "'h \<Rightarrow> string \<Rightarrow> string \<Rightarrow> (int + unit) \<times> 'h"
  h_access :: "'h \<Rightarrow> string \<Rightarrow> int \<Rightarrow> int + unit"
  h_mmap :: "'h \<Rightarrow> int \<Rightarrow> nat \<Rightarrow> int + string"
  h_gpg_encrypt :: "'h \<Rightarrow> string list \<Rightarrow> int \<Rightarrow> string \<Rightarrow> int \<times> 'h"
  h_gpg_decrypt :: "'h \<Rightarrow> string list \<Rightarrow> gpg_stdin \<Rightarrow> nat \<Rightarrow> (decrypt_result \<times> 'h) option"
  h_resize_ok :: "'h \<Rightarrow> nat \<Rightarrow> bool"

text \<open>
  \<open>h_gpg_encrypt h argv fd bytes\<close> is \<^verbatim>\<open>subprocess s(-1, fd, "gpg", argv)\<close> fed \<open>bytes\<close>
  and waited for: the result of \<^verbatim>\<open>wait\<close> and the host afterwards.
  \<open>h_gpg_decrypt h argv stdin n\<close> is \<^verbatim>\<open>subprocess s(gpg_stdin, -1, "gpg", argv)\<close> with the
  communication loop and \<^verbatim>\<open>wait\<close>, entered with a \<^verbatim>\<open>buffer\<close> of \<open>n\<close> bytes; it is \<open>None\<close>
  when a \<^verbatim>\<open>buffer.resize\<close> of that loop throws. \<open>h_openat\<close> takes the creation mode when
  the call passes one; \<open>h_fstat\<close>, \<open>h_access\<close> and \<open>h_mmap\<close> do not change the host.
  \<open>h_resize_ok h n\<close> says that a \<^verbatim>\<open>std::string\<close> can grow to \<open>n\<close> bytes: \<open>n\<close> is at most
  the library's \<^verbatim>\<open>max_size()\<close> and the memory is there, so that \<^verbatim>\<open>resize(n)\<close> throws neither
  \<^verbatim>\<open>std::length_error\<close> nor \<^verbatim>\<open>std::bad_alloc\<close>.
\<close>

text \<open>
  The state of the small host on which the callbacks are evaluated further down: the
  backing files by path, and the open descriptors with their path, their flags and their
  file offset.
\<close>

record toy_host =
  files :: "string \<rightharpoonup> string"
  fds :: "int \<rightharpoonup> string \<times> int \<times> nat"
  next_host_fd :: int

subsection \<open>The state\<close>

text \<open>\<^verbatim>\<open>class asymmetricfs::internal\<close>: the state of one open file.\<close>

record internal =
  fd :: int
  flags :: int
  references :: "32 word"
  path :: string
  buffer_set :: bool
  dirty :: bool
  buffer :: string
  open_m :: bool

text \<open>
  Modelled from the spec: the handle type \<^verbatim>\<open>fd_t\<close> and the types of the two tables
  \<^verbatim>\<open>open_paths_\<close> and \<^verbatim>\<open>open_fds_\<close> are declared in \<^verbatim>\<open>implementation.h\<close>, which is not among
  the sources. A handle id is a non-negative integer (\<open>nat\<close>); \<^verbatim>\<open>open_paths_\<close> maps a
  logical path to a handle id and \<^verbatim>\<open>open_fds_\<close> a handle id to the state of the open file.
\<close>

type_synonym fd_t = nat

text \<open>The data members of \<^verbatim>\<open>class asymmetricfs\<close> that the callbacks use, and the host.\<close>

record 'h asymmetricfs =
  read_m :: bool
  next_m :: fd_t
  open_paths_m :: "string \<rightharpoonup> fd_t"
  open_fds_m :: "fd_t \<rightharpoonup> internal"
  recipients_m :: "string list"
  host :: 'h

text \<open>The constructor \<^verbatim>\<open>asymmetricfs()\<close>: \<^verbatim>\<open>read_(false), next_(0)\<close>, empty tables.\<close>

definition asymmetricfs_init :: "'h \<Rightarrow> 'h asymmetricfs" where
  "asymmetricfs_init h =
     \<lparr>read_m = False, next_m = 0, open_paths_m = Map.empty, open_fds_m = Map.empty,
      recipients_m = [], host = h\<rparr>"

definition set_read :: "'h asymmetricfs \<Rightarrow> bool \<Rightarrow> 'h asymmetricfs" where
  "set_read s r = s\<lparr>read_m := r\<rparr>"

text \<open>\<^verbatim>\<open>insert\<close> of a standard map: the pair is stored only if the key is absent.\<close>

definition map_insert :: "('k \<rightharpoonup> 'v) \<Rightarrow> 'k \<Rightarrow> 'v \<Rightarrow> ('k \<rightharpoonup> 'v)" where
  "map_insert m k v = (case m k of None \<Rightarrow> m(k \<mapsto> v) | Some _ \<Rightarrow> m)"

text \<open>\<^verbatim>\<open>std::string::resize(n)\<close>: cut, or pad with NUL bytes.\<close>

definition resize :: "nat \<Rightarrow> string \<Rightarrow> string" where
  "resize n xs = take n xs @ replicate (n - length xs) (CHR 0x00)"

text \<open>
  \<^verbatim>\<open>str.resize(n)\<close> as the program runs it: a string never throws when it does not grow;
  when it grows, the call returns if the library and the memory allow \<open>n\<close> bytes and
  throws otherwise (\<open>None\<close>).
\<close>

definition string_resize :: "'h host_ops \<Rightarrow> 'h \<Rightarrow> nat \<Rightarrow> string \<Rightarrow> string option" where
  "string_resize H h n xs =
     (if n \<le> length xs \<or> h_resize_ok H h n then Some (resize n xs) else None)"

text \<open>The number of values of the 64-bit \<^verbatim>\<open>size_t\<close>, \<open>2 ^ 64\<close>.\<close>

definition SIZE_RANGE :: nat where
  "SIZE_RANGE = 18446744073709551616"

text \<open>\<^verbatim>\<open>memcpy(&dst[off], src, size)\<close> inside a string that is long enough.\<close>

definition memcpy_at :: "string \<Rightarrow> nat \<Rightarrow> string \<Rightarrow> string" where
  "memcpy_at dst off src = take off dst @ src @ drop (off + length src) dst"

text \<open>\<^verbatim>\<open>"." + path\<close>.\<close>

definition relpath :: "string \<Rightarrow> string" where
  "relpath p = CHR ''.'' # p"

subsection \<open>make_rdwr, next_fd\<close>

definition make_rdwr :: "'h asymmetricfs \<Rightarrow> int \<Rightarrow> int" where
  "make_rdwr s fl =
     (if \<not> read_m s then fl
      else if fl AND O_RDONLY \<noteq> 0 then fl
      else ((fl AND NOT O_RDONLY) AND NOT O_WRONLY) OR O_RDWR)"

text \<open>\<^verbatim>\<open>return next_++;\<close>\<close>

definition next_fd :: "'h asymmetricfs \<Rightarrow> fd_t \<times> 'h asymmetricfs" where
  "next_fd s = (next_m s, s\<lparr>next_m := next_m s + 1\<rparr>)"

subsection \<open>write\<close>

text \<open>
  The arguments \<^verbatim>\<open>buffer, size\<close> are the byte list \<open>buf\<close>, \<^verbatim>\<open>size\<close> being its
  length; \<open>fh\<close> is \<^verbatim>\<open>info->fh\<close>. The sum \<^verbatim>\<open>offset + size\<close> is a \<^verbatim>\<open>size_t\<close> and wraps
  around; \<^verbatim>\<open>data.buffer.resize(new_size)\<close> can throw; and if the sum has wrapped, the
  \<^verbatim>\<open>memcpy\<close> to \<^verbatim>\<open>&data.buffer[offset]\<close> runs past the end of the string. In the last two
  cases the process stops.
\<close>

definition "write" ::
  "'h host_ops \<Rightarrow> 'h asymmetricfs \<Rightarrow> string \<Rightarrow> int \<Rightarrow> fd_t \<Rightarrow> (int \<times> 'h asymmetricfs) option" where
  "write H s buf offset0 fh =
     (case open_fds_m s fh of
        None \<Rightarrow> Some (- EBADF, s)
      | Some data \<Rightarrow>
          if length buf = 0 then Some (0, s)
          else if offset0 < 0 then Some (- EINVAL, s)
          else
            (let offset = nat offset0;
                 new_size = max (length (buffer data)) ((offset + length buf) mod SIZE_RANGE)
             in (case string_resize H (host s) new_size (buffer data) of
                   None \<Rightarrow> None
                 | Some resized \<Rightarrow>
                     if length resized < offset + length buf then None
                     else
                       Some (to_int (length buf),
                             s\<lparr>open_fds_m :=
                                 (open_fds_m s)(fh \<mapsto>
                                    data\<lparr>buffer := memcpy_at resized offset buf,
                                         dirty := True\<rparr>)\<rparr>))))"

subsection \<open>access\<close>

definition access :: "'h host_ops \<Rightarrow> 'h asymmetricfs \<Rightarrow> string \<Rightarrow> int \<Rightarrow> (int \<times> 'h asymmetricfs) option" where
  "access H s path0 mode =
     (let ret = (if mode AND R_OK \<noteq> 0 \<and> \<not> read_m s then - EACCES else 0)
      in case h_access H (host s) (relpath path0) mode of
           Inr _ \<Rightarrow> Some (ret, s)
         | Inl errno \<Rightarrow> Some (- errno, s))"

subsection \<open>internal::close and the destructor\<close>

definition encrypt_argv :: "string list \<Rightarrow> string list" where
  "encrypt_argv rcpts =
     [''gpg'', ''-ae'', ''--no-tty'', ''--batch''] @ concat (map (\<lambda>r. [''-r'', r]) rcpts)"

definition close :: "'h host_ops \<Rightarrow> string list \<Rightarrow> internal \<Rightarrow> 'h \<Rightarrow> int \<times> internal \<times> 'h" where
  "close H rcpts d h =
     (if \<not> open_m d then (0, d, h)
      else
        let flushed =
              (if dirty d
               then let r = h_gpg_encrypt H h (encrypt_argv rcpts) (fd d) (buffer d)
                    in (if fst r \<noteq> 0 then - EIO else 0, d\<lparr>dirty := False\<rparr>, snd r)
               else (0, d, h));
            ret = fst flushed;
            d1 = (fst (snd flushed))\<lparr>open_m := False\<rparr>;
            c = h_close H (snd (snd flushed)) (fd d)
        in (if ret \<noteq> 0 then ret
            else (case fst c of Inr _ \<Rightarrow> 0 | Inl errno \<Rightarrow> errno),
            d1, snd c))"

text \<open>\<^verbatim>\<open>~internal()\<close>: \<^verbatim>\<open>(void) close(); assert(references == 0);\<close>\<close>

definition destroy :: "'h host_ops \<Rightarrow> string list \<Rightarrow> internal \<Rightarrow> 'h \<Rightarrow> 'h option" where
  "destroy H rcpts d h =
     (let r = close H rcpts d h
      in if references d = 0 then Some (snd (snd r)) else None)"

subsection \<open>internal::load_buffer\<close>

definition terminator :: string where
  "terminator = ''-----END PGP MESSAGE-----'' @ [CHR 0x0A]"

definition terminator_size :: nat where
  "terminator_size = length terminator"

definition decrypt_argv :: "string list" where
  "decrypt_argv = [''gpg'', ''-d'', ''--no-tty'', ''--batch'']"

text \<open>\<^verbatim>\<open>const size_t chunk_size = 1 << 20\<close>, by which the communication loop grows \<^verbatim>\<open>buffer\<close>.\<close>

definition chunk_size :: nat where
  "chunk_size = 1048576"

text \<open>
  The inner \<^verbatim>\<open>for\<close> loop that looks for the terminator from \<open>new_offset\<close> on. It is only
  entered with \<open>terminator_size \<le> fd_size\<close> here (see \<open>load_loop\<close>), so that
  \<open>fd_size - terminator_size\<close> is the C value.
\<close>

function find_terminator :: "string \<Rightarrow> nat \<Rightarrow> nat \<Rightarrow> nat" where
  "find_terminator underlying fd_size new_offset =
     (if new_offset \<le> fd_size - terminator_size
      then if take terminator_size (drop new_offset underlying) = terminator
           then new_offset + terminator_size
           else find_terminator underlying fd_size (new_offset + 1)
      else new_offset)"
  by pat_completeness auto
termination
  by (relation "measure (\<lambda>(u, fd_size, n). Suc (fd_size - terminator_size) - n)") auto

declare find_terminator.simps [simp del]

text \<open>
  The outer \<^verbatim>\<open>for (size_t offset = 0; offset < fd_size; )\<close> loop. The result is
  \<open>(ret, buffer_set, buffer, host)\<close>. For \<open>fd_size < terminator_size\<close> the unsigned
  \<open>fd_size - terminator_size\<close> wraps around and the scan runs off the mapping: \<open>None\<close>.
  It is \<open>None\<close> as well when the communication loop with a child throws.
\<close>

function load_loop ::
  "'h host_ops \<Rightarrow> int \<Rightarrow> string \<Rightarrow> nat \<Rightarrow> nat \<Rightarrow> int \<Rightarrow> string \<Rightarrow> 'h
     \<Rightarrow> (int \<times> bool \<times> string \<times> 'h) option" where
  "load_loop H fdn underlying fd_size offset ret buf h =
     (if \<not> offset < fd_size then Some (ret, True, buf, h)
      else if fd_size < terminator_size then None
      else if \<not> (offset \<le> find_terminator underlying fd_size offset
                \<and> find_terminator underlying fd_size offset \<le> fd_size) then None
      else if \<not> (offset = 0 \<and> find_terminator underlying fd_size offset = fd_size)
                \<and> find_terminator underlying fd_size offset - offset = 0
           then Some (ret, True, buf, h)
      else
        (case h_gpg_decrypt H h decrypt_argv
                (if offset = 0 \<and> find_terminator underlying fd_size offset = fd_size
                 then Stdin_fd fdn
                 else Stdin_bytes (take (find_terminator underlying fd_size offset - offset)
                                     (drop offset underlying)))
                (length buf) of
           None \<Rightarrow> None
         | Some r \<Rightarrow>
             (let new_offset = find_terminator underlying fd_size offset;
                  buf1 = buf @ dr_out (fst r);
                  ret1 = (if dr_cret (fst r) \<noteq> 0 then - dr_cret (fst r) else ret)
              in if dr_wait (fst r) \<noteq> 0 then Some (EIO, False, buf1, snd r)
                 else load_loop H fdn underlying fd_size new_offset ret1 buf1 (snd r))))"
  by pat_completeness auto
termination
  by (relation "measure (\<lambda>(H, fdn, u, fd_size, offset, ret, buf, h). fd_size - offset)") auto

declare load_loop.simps [simp del]

definition load_buffer :: "'h host_ops \<Rightarrow> internal \<Rightarrow> 'h \<Rightarrow> (int \<times> internal \<times> 'h) option" where
  "load_buffer H d h =
     (if buffer_set d then Some (0, d, h)
      else if \<not> open_m d then None
      else
        let d1 = d\<lparr>dirty := False, buffer := []\<rparr>
        in (case h_fstat H h (fd d1) of
              Inl errno \<Rightarrow> Some (errno, d1, h)
            | Inr fd_stat \<Rightarrow>
                (if st_size fd_stat \<le> 0 then Some (0, d1\<lparr>buffer_set := True\<rparr>, h)
                 else
                   (let fd_size = nat (st_size fd_stat)
                    in (case h_mmap H h (fd d1) fd_size of
                          Inl errno \<Rightarrow> Some (errno, d1, h)
                        | Inr underlying \<Rightarrow>
                            (case load_loop H (fd d1) underlying fd_size 0 0 [] h of
                               None \<Rightarrow> None
                             | Some (ret, bs, buf, h1) \<Rightarrow>
                                 Some (ret, d1\<lparr>buffer_set := bs, buffer := buf\<rparr>, h1)))))))"

subsection \<open>create and open\<close>

text \<open>\<^verbatim>\<open>struct fuse_file_info\<close>, as far as the code uses it: \<^verbatim>\<open>flags\<close> and \<^verbatim>\<open>fh\<close>.\<close>

record fuse_file_info =
  info_flags :: int
  info_fh :: fd_t

text \<open>
  The common tail of \<^verbatim>\<open>create\<close> and \<^verbatim>\<open>open\<close> ("Update list of open files"): a
  fresh handle id, the two \<^verbatim>\<open>insert\<close>s and \<^verbatim>\<open>info->fh = fd\<close>. \<open>ret\<close> is the host
  descriptor, \<open>fl\<close> the flags stored and \<open>bs\<close> the initial \<^verbatim>\<open>buffer_set\<close>.
\<close>

definition insert_open_file ::
  "'h asymmetricfs \<Rightarrow> string \<Rightarrow> fuse_file_info \<Rightarrow> int \<Rightarrow> int \<Rightarrow> bool
     \<Rightarrow> int \<times> fuse_file_info \<times> 'h asymmetricfs" where
  "insert_open_file s path0 info ret fl bs =
     (let a = next_fd s;
          fdn = fst a;
          s1 = snd a;
          data = \<lparr>fd = ret, flags = fl, references = 1, path = path0, buffer_set = bs,
                  dirty = False, buffer = [], open_m = True\<rparr>
      in (0, info\<lparr>info_fh := fdn\<rparr>,
          s1\<lparr>open_paths_m := map_insert (open_paths_m s1) path0 fdn,
             open_fds_m := map_insert (open_fds_m s1) fdn data\<rparr>))"

definition create ::
  "'h host_ops \<Rightarrow> 'h asymmetricfs \<Rightarrow> string \<Rightarrow> int \<Rightarrow> fuse_file_info
     \<Rightarrow> (int \<times> fuse_file_info \<times> 'h asymmetricfs) option" where
  "create H s path0 mode info0 =
     (let info = info0\<lparr>info_flags := info_flags info0 OR O_CREAT\<rparr>;
          r1 = h_openat H (host s) (relpath path0) (make_rdwr s (info_flags info)) (Some mode)
      in (case fst r1 of
            Inr ret \<Rightarrow>
              Some (insert_open_file (s\<lparr>host := snd r1\<rparr>) path0 info ret (info_flags info) True)
          | Inl errno \<Rightarrow>
              (if read_m s \<and> info_flags info AND O_WRONLY \<noteq> 0 \<and> errno = EACCES
               then
                 (let r2 = h_openat H (snd r1) (relpath path0) (info_flags info) (Some mode)
                  in (case fst r2 of
                        Inr ret \<Rightarrow>
                          Some (insert_open_file (s\<lparr>host := snd r2\<rparr>) path0 info ret
                                  (info_flags info) True)
                      | Inl errno2 \<Rightarrow> Some (- errno2, info, s\<lparr>host := snd r2\<rparr>)))
               else Some (- errno, info, s\<lparr>host := snd r1\<rparr>))))"

text \<open>
  The end of \<^verbatim>\<open>open\<close> once the host descriptor \<open>ret\<close> is there: \<^verbatim>\<open>buffer_set\<close> is
  \<^verbatim>\<open>buf.st_size == 0\<close> when \<^verbatim>\<open>fstat\<close> succeeds and false otherwise.
\<close>

definition open_finish ::
  "'h host_ops \<Rightarrow> 'h asymmetricfs \<Rightarrow> string \<Rightarrow> fuse_file_info \<Rightarrow> int \<Rightarrow> int
     \<Rightarrow> int \<times> fuse_file_info \<times> 'h asymmetricfs" where
  "open_finish H s path0 info ret fl =
     insert_open_file s path0 info ret fl
       (case h_fstat H (host s) ret of Inr buf \<Rightarrow> st_size buf = 0 | Inl _ \<Rightarrow> False)"

definition "open" ::
  "'h host_ops \<Rightarrow> 'h asymmetricfs \<Rightarrow> string \<Rightarrow> fuse_file_info
     \<Rightarrow> (int \<times> fuse_file_info \<times> 'h asymmetricfs) option" where
  "open H s path0 info =
     (case open_paths_m s path0 of
        Some fdn \<Rightarrow>
          (case open_fds_m s fdn of
             None \<Rightarrow> None
           | Some d \<Rightarrow>
               Some (0, info\<lparr>info_fh := fdn\<rparr>,
                     s\<lparr>open_fds_m := (open_fds_m s)(fdn \<mapsto> d\<lparr>references := references d + 1\<rparr>)\<rparr>))
      | None \<Rightarrow>
          (let access_mode = info_flags info AND O_ACCMODE;
               for_reading = (access_mode = O_RDWR \<or> access_mode = O_RDONLY);
               fl = (if \<not> read_m s \<and> for_reading \<and> info_flags info AND O_CREAT \<noteq> 0
                     then info_flags info OR O_EXCL else info_flags info);
               r1 = h_openat H (host s) (relpath path0) (make_rdwr s fl) None
           in (case fst r1 of
                 Inr ret \<Rightarrow> Some (open_finish H (s\<lparr>host := snd r1\<rparr>) path0 info ret fl)
               | Inl errno \<Rightarrow>
                   (if read_m s \<and> \<not> for_reading \<and> errno = EACCES
                    then
                      (let r2 = h_openat H (snd r1) (relpath path0) fl None
                       in (case fst r2 of
                             Inr ret \<Rightarrow>
                               Some (open_finish H (s\<lparr>host := snd r2\<rparr>) path0 info ret fl)
                           | Inl errno2 \<Rightarrow> Some (- errno2, info, s\<lparr>host := snd r2\<rparr>)))
                    else Some (- errno, info, s\<lparr>host := snd r1\<rparr>)))))"

subsection \<open>truncatefd, ftruncate, truncate\<close>

text \<open>
  \<^verbatim>\<open>buffer.resize(0)\<close> shrinks and cannot throw; \<^verbatim>\<open>buffer.resize(offset)\<close> can.
\<close>

definition truncatefd ::
  "'h host_ops \<Rightarrow> 'h asymmetricfs \<Rightarrow> fd_t \<Rightarrow> int \<Rightarrow> (int \<times> 'h asymmetricfs) option" where
  "truncatefd H s fdn offset =
     (case open_fds_m s fdn of
        None \<Rightarrow> Some (- EBADF, s)
      | Some d \<Rightarrow>
          if offset < 0 then Some (- EINVAL, s)
          else if offset = 0 then
            (let r = h_ftruncate H (host s) (fd d) 0
             in case fst r of
                  Inl errno \<Rightarrow> Some (- errno, s\<lparr>host := snd r\<rparr>)
                | Inr _ \<Rightarrow>
                    Some (0, s\<lparr>open_fds_m :=
                                 (open_fds_m s)(fdn \<mapsto> d\<lparr>buffer := resize 0 (buffer d),
                                                            dirty := True\<rparr>),
                               host := snd r\<rparr>))
          else if read_m s then
            (case load_buffer H d (host s) of
               None \<Rightarrow> None
             | Some (ret, d1, h1) \<Rightarrow>
                 if ret \<noteq> 0
                 then Some (- ret, s\<lparr>open_fds_m := (open_fds_m s)(fdn \<mapsto> d1), host := h1\<rparr>)
                 else
                   (case string_resize H h1 (nat offset) (buffer d1) of
                      None \<Rightarrow> None
                    | Some resized \<Rightarrow>
                        Some (0, s\<lparr>open_fds_m :=
                                     (open_fds_m s)(fdn \<mapsto> d1\<lparr>buffer := resized, dirty := True\<rparr>),
                                   host := h1\<rparr>)))
          else Some (- EACCES, s))"

definition ftruncate ::
  "'h host_ops \<Rightarrow> 'h asymmetricfs \<Rightarrow> int \<Rightarrow> fuse_file_info \<Rightarrow> (int \<times> 'h asymmetricfs) option" where
  "ftruncate H s offset info = truncatefd H s (info_fh info) offset"

text \<open>
  In the branch for a file that is not open, \<^verbatim>\<open>internal data(recipients_)\<close> is built by
  the constructor, which does not initialise \<^verbatim>\<open>buffer_set\<close>, and no assignment follows:
  the value \<^verbatim>\<open>load_buffer\<close> then reads is indeterminate. It is the argument \<open>uninit\<close>.
  Every \<^verbatim>\<open>return\<close> after the construction runs the destructor of \<^verbatim>\<open>data\<close>.
\<close>

definition truncate ::
  "'h host_ops \<Rightarrow> bool \<Rightarrow> 'h asymmetricfs \<Rightarrow> string \<Rightarrow> int \<Rightarrow> (int \<times> 'h asymmetricfs) option" where
  "truncate H uninit s path0 offset =
     (if offset < 0 then Some (- EINVAL, s)
      else
        (case open_paths_m s path0 of
           Some fdn \<Rightarrow> truncatefd H s fdn offset
         | None \<Rightarrow>
             (if offset = 0 then
                (let r = h_truncate H (host s) (relpath path0) offset
                 in (case fst r of
                       Inr _ \<Rightarrow> Some (0, s\<lparr>host := snd r\<rparr>)
                     | Inl errno \<Rightarrow> Some (- errno, s\<lparr>host := snd r\<rparr>)))
              else if read_m s then
                (let r = h_open H (host s) (relpath path0) O_RDWR
                 in (case fst r of
                       Inl errno \<Rightarrow> Some (- errno, s\<lparr>host := snd r\<rparr>)
                     | Inr ret \<Rightarrow>
                         (let data = \<lparr>fd = ret, flags = O_RDWR, references = 0, path = path0,
                                      buffer_set = uninit, dirty = False, buffer = [],
                                      open_m = True\<rparr>
                          in (case load_buffer H data (snd r) of
                                None \<Rightarrow> None
                              | Some (load_ret, data1, h1) \<Rightarrow>
                                  (if load_ret \<noteq> 0 then
                                     (case destroy H (recipients_m s) data1 h1 of
                                        None \<Rightarrow> None
                                      | Some h2 \<Rightarrow> Some (- load_ret, s\<lparr>host := h2\<rparr>))
                                   else if \<not> buffer_set data1 then None
                                   else
                                     (case string_resize H h1 (nat offset) (buffer data1) of
                                        None \<Rightarrow> None
                                      | Some resized \<Rightarrow>
                                          (let data2 = data1\<lparr>buffer := resized, dirty := True\<rparr>;
                                               c = close H (recipients_m s) data2 h1
                                           in (case destroy H (recipients_m s) (fst (snd c))
                                                      (snd (snd c)) of
                                                 None \<Rightarrow> None
                                               | Some h2 \<Rightarrow>
                                                   Some (if fst c = 0 then 0 else - fst c,
                                                         s\<lparr>host := h2\<rparr>)))))))))
              else Some (- EACCES, s))))"

subsection \<open>read\<close>

text \<open>
  The result carries the bytes that \<^verbatim>\<open>memcpy\<close> stored at the start of the caller's
  \<^verbatim>\<open>buffer\<close> (none on the paths without a \<^verbatim>\<open>memcpy\<close>); \<open>sz\<close> is the argument
  \<^verbatim>\<open>size\<close>.
\<close>

definition read ::
  "'h host_ops \<Rightarrow> 'h asymmetricfs \<Rightarrow> nat \<Rightarrow> int \<Rightarrow> fd_t
     \<Rightarrow> (int \<times> string \<times> 'h asymmetricfs) option" where
  "read H s sz offset0 fh =
     (case open_fds_m s fh of
        None \<Rightarrow> Some (- EBADF, [], s)
      | Some d \<Rightarrow>
          if offset0 < 0 then Some (0, [], s)
          else
            let offset = nat offset0
            in if \<not> read_m s then
                 (if \<not> buffer_set d \<and>
                       (flags d AND O_APPEND \<noteq> 0 \<or> \<not> flags d AND O_CREAT \<noteq> 0)
                  then Some (- EACCES, [], s)
                  else
                    let str = buffer d; str_size = length str
                    in if str_size < offset then Some (0, [], s)
                       else
                         let remaining = min (min (str_size - offset) sz) INT_MAX
                         in Some (to_int remaining, take remaining (drop offset str), s))
               else
                 (case load_buffer H d (host s) of
                    None \<Rightarrow> None
                  | Some (ret, d1, h1) \<Rightarrow>
                      let s1 = s\<lparr>open_fds_m := (open_fds_m s)(fh \<mapsto> d1), host := h1\<rparr>
                      in if ret \<noteq> 0 then Some (- ret, [], s1)
                         else if \<not> buffer_set d1 then None
                         else
                           let str = buffer d1; str_size = length str
                           in if str_size \<le> offset then Some (0, [], s1)
                              else
                                let remaining = min (str_size - offset) sz
                                in if \<not> remaining < INT_MAX then None
                                   else Some (to_int remaining, take remaining str, s1)))"

subsection \<open>release, rename\<close>

definition release ::
  "'h host_ops \<Rightarrow> 'h asymmetricfs \<Rightarrow> fuse_file_info \<Rightarrow> (int \<times> 'h asymmetricfs) option" where
  "release H s info =
     (case open_fds_m s (info_fh info) of
        None \<Rightarrow> Some (0, s)
      | Some d \<Rightarrow>
          let new_count = references d - 1;
              d1 = d\<lparr>references := new_count\<rparr>
          in if new_count = 0 then
               (case destroy H (recipients_m s) d1 (host s) of
                  None \<Rightarrow> None
                | Some h1 \<Rightarrow>
                    Some (0, s\<lparr>open_paths_m := (open_paths_m s)(path d1 := None),
                               open_fds_m := (open_fds_m s)(info_fh info := None),
                               host := h1\<rparr>))
             else Some (0, s\<lparr>open_fds_m := (open_fds_m s)(info_fh info \<mapsto> d1)\<rparr>))"

definition rename ::
  "'h host_ops \<Rightarrow> 'h asymmetricfs \<Rightarrow> string \<Rightarrow> string \<Rightarrow> (int \<times> 'h asymmetricfs) option" where
  "rename H s oldpath newpath =
     (let r = h_rename H (host s) (relpath oldpath) (relpath newpath)
      in case fst r of
           Inl errno \<Rightarrow> Some (- errno, s\<lparr>host := snd r\<rparr>)
         | Inr _ \<Rightarrow>
             (case open_paths_m s oldpath of
                None \<Rightarrow> Some (0, s\<lparr>host := snd r\<rparr>)
              | Some fdn \<Rightarrow>
                  (case open_fds_m s fdn of
                     None \<Rightarrow> None
                   | Some d \<Rightarrow>
                       Some (0, s\<lparr>open_paths_m :=
                                    (map_insert (open_paths_m s) newpath fdn)(oldpath := None),
                                  open_fds_m := (open_fds_m s)(fdn \<mapsto> d\<lparr>path := newpath\<rparr>),
                                  host := snd r\<rparr>))))"

subsection \<open>statfd, fgetattr\<close>

text \<open>\<open>buf_null\<close> says that the output pointer \<^verbatim>\<open>buf\<close> is null.\<close>

definition statfd ::
  "'h host_ops \<Rightarrow> 'h asymmetricfs \<Rightarrow> fd_t \<Rightarrow> bool
     \<Rightarrow> (int \<times> stat option \<times> 'h asymmetricfs) option" where
  "statfd H s fdn buf_null =
     (if buf_null then Some (- EFAULT, None, s)
      else case open_fds_m s fdn of
        None \<Rightarrow> Some (- EBADF, None, s)
      | Some d \<Rightarrow>
          (case h_fstat H (host s) (fd d) of
             Inl errno \<Rightarrow> Some (- errno, None, s)
           | Inr st \<Rightarrow>
               (case (if read_m s then load_buffer H d (host s) else Some (0, d, host s)) of
                  None \<Rightarrow> None
                | Some (lret, d1, h1) \<Rightarrow>
                    let s1 = s\<lparr>open_fds_m := (open_fds_m s)(fdn \<mapsto> d1), host := h1\<rparr>
                    in if lret \<noteq> 0 then Some (- lret, None, s1)
                       else if read_m s \<and> \<not> buffer_set d1 then None
                       else
                         let sz = length (buffer d1)
                         in Some (0,
                                  Some (if buffer_set d1 then st\<lparr>st_size := int sz\<rparr>
                                        else if flags d1 AND O_APPEND \<noteq> 0
                                             then st\<lparr>st_size := st_size st + int sz\<rparr>
                                        else st),
                                  s1))))"

definition fgetattr ::
  "'h host_ops \<Rightarrow> 'h asymmetricfs \<Rightarrow> bool \<Rightarrow> fuse_file_info
     \<Rightarrow> (int \<times> stat option \<times> 'h asymmetricfs) option" where
  "fgetattr H s buf_null info = statfd H s (info_fh info) buf_null"

subsection \<open>Sequences of callbacks\<close>

text \<open>
  One callback with its arguments. \<open>Op_truncate\<close> carries the indeterminate value that
  \<open>truncate\<close> takes, \<open>Op_fgetattr\<close> whether the output pointer is null.
\<close>

datatype op =
    Op_create string int fuse_file_info
  | Op_open string fuse_file_info
  | Op_read nat int fd_t
  | Op_write string int fd_t
  | Op_truncate bool string int
  | Op_ftruncate int fuse_file_info
  | Op_rename string string
  | Op_release fuse_file_info
  | Op_fgetattr bool fuse_file_info
  | Op_access string int

text \<open>What a callback hands back besides its return value.\<close>

datatype out = Out_none | Out_info fuse_file_info | Out_bytes string | Out_stat "stat option"

definition with_out :: "out \<Rightarrow> (int \<times> 's) option \<Rightarrow> (int \<times> out \<times> 's) option" where
  "with_out out r = map_option (\<lambda>(ret, s). (ret, out, s)) r"

fun step :: "'h host_ops \<Rightarrow> 'h asymmetricfs \<Rightarrow> op \<Rightarrow> (int \<times> out \<times> 'h asymmetricfs) option" where
  "step H s (Op_create p mode info) =
     map_option (\<lambda>(ret, i, s1). (ret, Out_info i, s1)) (create H s p mode info)"
| "step H s (Op_open p info) =
     map_option (\<lambda>(ret, i, s1). (ret, Out_info i, s1)) (open H s p info)"
| "step H s (Op_read sz off fh) =
     map_option (\<lambda>(ret, bytes, s1). (ret, Out_bytes bytes, s1)) (read H s sz off fh)"
| "step H s (Op_write buf off fh) = with_out Out_none (write H s buf off fh)"
| "step H s (Op_truncate uninit p off) = with_out Out_none (truncate H uninit s p off)"
| "step H s (Op_ftruncate off info) = with_out Out_none (ftruncate H s off info)"
| "step H s (Op_rename a b) = with_out Out_none (rename H s a b)"
| "step H s (Op_release info) = with_out Out_none (release H s info)"
| "step H s (Op_fgetattr buf_null info) =
     map_option (\<lambda>(ret, st, s1). (ret, Out_stat st, s1)) (fgetattr H s buf_null info)"
| "step H s (Op_access p mode) = with_out Out_none (access H s p mode)"

text \<open>
  A run of callbacks, one after the other: the return value and output of each, and
  the final state.
\<close>

fun run ::
  "'h host_ops \<Rightarrow> 'h asymmetricfs \<Rightarrow> op list \<Rightarrow> ((int \<times> out) list \<times> 'h asymmetricfs) option" where
  "run H s [] = Some ([], s)"
| "run H s (x # xs) =
     (case step H s x of
        None \<Rightarrow> None
      | Some (ret, out, s1) \<Rightarrow>
          (case run H s1 xs of
             None \<Rightarrow> None
           | Some (rs, s2) \<Rightarrow> Some ((ret, out) # rs, s2)))"

text \<open>
  The handle id that a callback newly allocates: the id returned by a successful
  \<^verbatim>\<open>create\<close>, or by a successful \<^verbatim>\<open>open\<close> of a path that has no entry in \<^verbatim>\<open>open_paths_\<close>.
  \<open>new_ids\<close> lists the ids allocated during a run, in order.
\<close>

definition new_id :: "'h host_ops \<Rightarrow> 'h asymmetricfs \<Rightarrow> op \<Rightarrow> fd_t option" where
  "new_id H s x =
     (case x of
        Op_create p mode info \<Rightarrow>
          (case create H s p mode info of
             Some (ret, i, s1) \<Rightarrow> if ret = 0 then Some (info_fh i) else None
           | None \<Rightarrow> None)
      | Op_open p info \<Rightarrow>
          (case open_paths_m s p of
             Some fdn \<Rightarrow> None
           | None \<Rightarrow>
               (case open H s p info of
                  Some (ret, i, s1) \<Rightarrow> if ret = 0 then Some (info_fh i) else None
                | None \<Rightarrow> None))
      | _ \<Rightarrow> None)"

fun new_ids :: "'h host_ops \<Rightarrow> 'h asymmetricfs \<Rightarrow> op list \<Rightarrow> fd_t list" where
  "new_ids H s [] = []"
| "new_ids H s (x # xs) =
     (case step H s x of
        None \<Rightarrow> []
      | Some (ret, out, s1) \<Rightarrow>
          (case new_id H s x of
             None \<Rightarrow> new_ids H s1 xs
           | Some i \<Rightarrow> i # new_ids H s1 xs))"

subsection \<open>Predicates on states and hosts\<close>

text \<open>Invariant 3 of the data model: every open file that is dirty has a known buffer.\<close>

definition dirty_known :: "'h asymmetricfs \<Rightarrow> bool" where
  "dirty_known s = (\<forall>fh d. open_fds_m s fh = Some d \<longrightarrow> dirty d \<longrightarrow> buffer_set d)"

text \<open>The handle is unknown or the buffer of its state is known.\<close>

definition buffer_known :: "'h asymmetricfs \<Rightarrow> fd_t \<Rightarrow> bool" where
  "buffer_known s fh = (case open_fds_m s fh of None \<Rightarrow> True | Some d \<Rightarrow> buffer_set d)"

text \<open>
  The callback is not a \<^verbatim>\<open>write\<close> of bytes, nor a truncation to offset 0, that reaches
  the state of an open file whose buffer is not known.
\<close>

fun on_known_buffer :: "'h asymmetricfs \<Rightarrow> op \<Rightarrow> bool" where
  "on_known_buffer s (Op_write buf off fh) = (buf = [] \<or> off < 0 \<or> buffer_known s fh)"
| "on_known_buffer s (Op_ftruncate off info) = (off \<noteq> 0 \<or> buffer_known s (info_fh info))"
| "on_known_buffer s (Op_truncate uninit p off) =
     (off \<noteq> 0 \<or> (case open_paths_m s p of None \<Rightarrow> True | Some fh \<Rightarrow> buffer_known s fh))"
| "on_known_buffer s x = True"

text \<open>Every callback of the run is \<open>on_known_buffer\<close> in the state it starts from.\<close>

fun run_on_known_buffers :: "'h host_ops \<Rightarrow> 'h asymmetricfs \<Rightarrow> op list \<Rightarrow> bool" where
  "run_on_known_buffers H s [] = True"
| "run_on_known_buffers H s (x # xs) =
     (on_known_buffer s x \<and>
      (case step H s x of None \<Rightarrow> True | Some (ret, out, s1) \<Rightarrow> run_on_known_buffers H s1 xs))"

text \<open>
  Invariant 2 of the data model, on the two tables: every entry of \<^verbatim>\<open>open_paths_\<close> leads to
  a state in \<^verbatim>\<open>open_fds_\<close> that carries that path, every state in \<^verbatim>\<open>open_fds_\<close> is the one
  that \<^verbatim>\<open>open_paths_\<close> has for its path, and every handle id in use is below the counter
  \<^verbatim>\<open>next_\<close>.
\<close>

definition tables_agree :: "'h asymmetricfs \<Rightarrow> bool" where
  "tables_agree s =
     ((\<forall>p fh. open_paths_m s p = Some fh \<longrightarrow> (\<exists>d. open_fds_m s fh = Some d \<and> path d = p)) \<and>
      (\<forall>fh d. open_fds_m s fh = Some d \<longrightarrow> open_paths_m s (path d) = Some fh \<and> fh < next_m s))"

text \<open>No two handle ids have states for the same path.\<close>

definition one_state_per_path :: "'h asymmetricfs \<Rightarrow> bool" where
  "one_state_per_path s =
     (\<forall>fh1 fh2 d1 d2. open_fds_m s fh1 = Some d1 \<and> open_fds_m s fh2 = Some d2 \<and> path d1 = path d2
        \<longrightarrow> fh1 = fh2)"

text \<open>
  The callback is not a \<^verbatim>\<open>create\<close> of a path that has an entry in \<^verbatim>\<open>open_paths_\<close>, nor a
  \<^verbatim>\<open>rename\<close> whose old and new path both have one.
\<close>

fun on_free_path :: "'h asymmetricfs \<Rightarrow> op \<Rightarrow> bool" where
  "on_free_path s (Op_create p mode info) = (open_paths_m s p = None)"
| "on_free_path s (Op_rename a b) = (open_paths_m s a = None \<or> open_paths_m s b = None)"
| "on_free_path s x = True"

text \<open>Every callback of the run is \<open>on_free_path\<close> in the state it starts from.\<close>

fun run_on_free_paths :: "'h host_ops \<Rightarrow> 'h asymmetricfs \<Rightarrow> op list \<Rightarrow> bool" where
  "run_on_free_paths H s [] = True"
| "run_on_free_paths H s (x # xs) =
     (on_free_path s x \<and>
      (case step H s x of None \<Rightarrow> True | Some (ret, out, s1) \<Rightarrow> run_on_free_paths H s1 xs))"

text \<open>
  What the callbacks of a run returned, and the paths that the states of the given handle
  ids carry after it.
\<close>

definition paths_after_run ::
  "'h host_ops \<Rightarrow> 'h asymmetricfs \<Rightarrow> op list \<Rightarrow> fd_t list
     \<Rightarrow> ((int \<times> out) list \<times> string option list) option" where
  "paths_after_run H s ops fhs =
     (case run H s ops of
        None \<Rightarrow> None
      | Some (rs, s1) \<Rightarrow> Some (rs, map (\<lambda>fh. map_option path (open_fds_m s1 fh)) fhs))"

text \<open>
  A failing \<^verbatim>\<open>openat\<close>, \<^verbatim>\<open>fstat\<close> or \<^verbatim>\<open>mmap\<close> of the host sets \<^verbatim>\<open>errno\<close> to a nonzero
  value.
\<close>

definition errno_nonzero :: "'h host_ops \<Rightarrow> bool" where
  "errno_nonzero H =
     ((\<forall>h p fl mode. fst (h_openat H h p fl mode) \<noteq> Inl 0) \<and>
      (\<forall>h n. h_fstat H h n \<noteq> Inl 0) \<and>
      (\<forall>h n len. h_mmap H h n len \<noteq> Inl 0))"

text \<open>
  On the host state \<open>h\<close>, a second truncation to length 0, of the path \<open>p\<close> or through a
  descriptor, returns what the first one returned and changes nothing more.
\<close>

definition truncate_zero_settles :: "'h host_ops \<Rightarrow> 'h \<Rightarrow> string \<Rightarrow> bool" where
  "truncate_zero_settles H h p =
     ((\<forall>n. h_ftruncate H (snd (h_ftruncate H h n 0)) n 0 = h_ftruncate H h n 0) \<and>
      h_truncate H (snd (h_truncate H h p 0)) p 0 = h_truncate H h p 0)"

text \<open>
  The \<open>dirty\<close> and \<open>buffer_set\<close> flags of the state of handle \<open>fh\<close> after a run, with the
  values the callbacks of the run returned.
\<close>

definition flags_after_run ::
  "'h host_ops \<Rightarrow> 'h asymmetricfs \<Rightarrow> op list \<Rightarrow> fd_t \<Rightarrow> (int list \<times> (bool \<times> bool) option) option" where
  "flags_after_run H s ops fh =
     (case run H s ops of
        None \<Rightarrow> None
      | Some (rs, s1) \<Rightarrow>
          Some (map fst rs, map_option (\<lambda>d. (dirty d, buffer_set d)) (open_fds_m s1 fh)))"

subsection \<open>A small host to run the callbacks on\<close>

text \<open>
  The theorems below hold for every host. To evaluate the callbacks on concrete inputs
  they are run on this host, whose state is a \<open>toy_host\<close>: every file is accessible, a
  descriptor carries its flags and its file offset, and an encrypted message is the
  plaintext followed by the terminator line. A new descriptor starts at offset 0, and
  \<^verbatim>\<open>O_TRUNC\<close> empties a file that exists.
\<close>

definition toy_openat :: "toy_host \<Rightarrow> string \<Rightarrow> int \<Rightarrow> (int + int) \<times> toy_host" where
  "toy_openat h p fl =
     (case files h p of
        Some _ \<Rightarrow>
          if fl AND O_CREAT \<noteq> 0 \<and> fl AND O_EXCL \<noteq> 0 then (Inl EEXIST, h)
          else (Inr (next_host_fd h),
                (if fl AND O_TRUNC \<noteq> 0 then h\<lparr>files := (files h)(p \<mapsto> [])\<rparr> else h)
                  \<lparr>fds := (fds h)(next_host_fd h \<mapsto> (p, fl, 0)),
                   next_host_fd := next_host_fd h + 1\<rparr>)
      | None \<Rightarrow>
          if fl AND O_CREAT \<noteq> 0
          then (Inr (next_host_fd h),
                h\<lparr>files := (files h)(p \<mapsto> []),
                  fds := (fds h)(next_host_fd h \<mapsto> (p, fl, 0)),
                  next_host_fd := next_host_fd h + 1\<rparr>)
          else (Inl ENOENT, h))"

definition toy_close :: "toy_host \<Rightarrow> int \<Rightarrow> (int + unit) \<times> toy_host" where
  "toy_close h n =
     (case fds h n of
        None \<Rightarrow> (Inl EBADF, h)
      | Some _ \<Rightarrow> (Inr (), h\<lparr>fds := (fds h)(n := None)\<rparr>))"

definition toy_content :: "toy_host \<Rightarrow> int \<Rightarrow> string option" where
  "toy_content h n = (case fds h n of None \<Rightarrow> None | Some (p, fl, pos) \<Rightarrow> files h p)"

definition toy_fstat :: "toy_host \<Rightarrow> int \<Rightarrow> int + stat" where
  "toy_fstat h n =
     (case toy_content h n of
        None \<Rightarrow> Inl EBADF
      | Some c \<Rightarrow> Inr \<lparr>st_size = int (length c), st_mode = 33152\<rparr>)"

definition toy_truncate :: "toy_host \<Rightarrow> string \<Rightarrow> int \<Rightarrow> (int + unit) \<times> toy_host" where
  "toy_truncate h p len =
     (case files h p of
        None \<Rightarrow> (Inl ENOENT, h)
      | Some c \<Rightarrow> (Inr (), h\<lparr>files := (files h)(p \<mapsto> resize (nat len) c)\<rparr>))"

text \<open>\<^verbatim>\<open>ftruncate\<close> needs a descriptor that is open for writing, and leaves its offset.\<close>

definition toy_ftruncate :: "toy_host \<Rightarrow> int \<Rightarrow> int \<Rightarrow> (int + unit) \<times> toy_host" where
  "toy_ftruncate h n len =
     (case fds h n of
        None \<Rightarrow> (Inl EBADF, h)
      | Some (p, fl, pos) \<Rightarrow>
          if fl AND O_ACCMODE = O_RDONLY then (Inl EINVAL, h) else toy_truncate h p len)"

definition toy_rename :: "toy_host \<Rightarrow> string \<Rightarrow> string \<Rightarrow> (int + unit) \<times> toy_host" where
  "toy_rename h a b =
     (case files h a of
        None \<Rightarrow> (Inl ENOENT, h)
      | Some c \<Rightarrow>
          (Inr (),
           h\<lparr>files := ((files h)(a := None))(b \<mapsto> c),
             fds := (\<lambda>n. map_option (\<lambda>(p, fl, pos). (if p = a then b else p, fl, pos))
                           (fds h n))\<rparr>))"

definition toy_access :: "toy_host \<Rightarrow> string \<Rightarrow> int \<Rightarrow> int + unit" where
  "toy_access h p mode = (case files h p of None \<Rightarrow> Inl ENOENT | Some _ \<Rightarrow> Inr ())"

text \<open>A mapping with \<^verbatim>\<open>PROT_READ\<close> needs a descriptor that is open for reading.\<close>

definition toy_mmap :: "toy_host \<Rightarrow> int \<Rightarrow> nat \<Rightarrow> int + string" where
  "toy_mmap h n len =
     (case fds h n of
        None \<Rightarrow> Inl EBADF
      | Some (p, fl, pos) \<Rightarrow>
          if fl AND O_ACCMODE = O_WRONLY then Inl EACCES
          else (case files h p of None \<Rightarrow> Inl EBADF | Some c \<Rightarrow> Inr c))"

text \<open>
  The encrypting child writes its message through the descriptor, which must be open for
  writing: at the end of the file under \<^verbatim>\<open>O_APPEND\<close>, at the offset of the descriptor
  otherwise (over the bytes that are there, after a gap of NUL bytes when the offset is
  past the end), and the offset moves to the end of the message.
\<close>

definition toy_gpg_encrypt :: "toy_host \<Rightarrow> string list \<Rightarrow> int \<Rightarrow> string \<Rightarrow> int \<times> toy_host" where
  "toy_gpg_encrypt h argv n bytes =
     (case fds h n of
        None \<Rightarrow> (2, h)
      | Some (p, fl, pos) \<Rightarrow>
          (case files h p of
             None \<Rightarrow> (2, h)
           | Some c \<Rightarrow>
               if fl AND O_ACCMODE = O_RDONLY then (2, h)
               else
                 (let msg = bytes @ terminator;
                      at = (if fl AND O_APPEND \<noteq> 0 then length c else pos)
                  in (0, h\<lparr>files := (files h)(p \<mapsto>
                                      memcpy_at (resize (max (length c) (at + length msg)) c) at msg),
                            fds := (fds h)(n \<mapsto> (p, fl, at + length msg))\<rparr>))))"

text \<open>
  A string can grow to \<open>toy_max_size\<close> bytes, the value of \<^verbatim>\<open>max_size()\<close> in a current GNU
  standard library on a 64-bit target (\<open>2 ^ 62 - 1\<close>); the memory of this host is not a
  limit below that.
\<close>

definition toy_max_size :: nat where
  "toy_max_size = 4611686018427387903"

text \<open>
  The decrypting child reads one message: the bytes it is sent, or, when its standard
  input is a descriptor (which must be open for reading), the bytes of the file from the
  offset of the descriptor on, and the offset moves to the end of the file. The
  communication loop ends with a \<^verbatim>\<open>resize\<close> to the bytes that are there plus \<open>chunk_size\<close>,
  its largest.
\<close>

definition toy_decrypt_message :: "string \<Rightarrow> decrypt_result" where
  "toy_decrypt_message msg =
     (if terminator_size \<le> length msg \<and> drop (length msg - terminator_size) msg = terminator
      then \<lparr>dr_out = take (length msg - terminator_size) msg, dr_cret = 0, dr_wait = 0\<rparr>
      else \<lparr>dr_out = [], dr_cret = 0, dr_wait = 2\<rparr>)"

definition toy_gpg_child :: "toy_host \<Rightarrow> gpg_stdin \<Rightarrow> decrypt_result \<times> toy_host" where
  "toy_gpg_child h input =
     (case input of
        Stdin_bytes b \<Rightarrow> (toy_decrypt_message b, h)
      | Stdin_fd n \<Rightarrow>
          (case fds h n of
             None \<Rightarrow> (toy_decrypt_message [], h)
           | Some (p, fl, pos) \<Rightarrow>
               (case files h p of
                  None \<Rightarrow> (toy_decrypt_message [], h)
                | Some c \<Rightarrow>
                    if fl AND O_ACCMODE = O_WRONLY then (toy_decrypt_message [], h)
                    else (toy_decrypt_message (drop pos c),
                          h\<lparr>fds := (fds h)(n \<mapsto> (p, fl, max pos (length c)))\<rparr>))))"

definition toy_gpg_decrypt ::
  "toy_host \<Rightarrow> string list \<Rightarrow> gpg_stdin \<Rightarrow> nat \<Rightarrow> (decrypt_result \<times> toy_host) option" where
  "toy_gpg_decrypt h argv input len =
     (let r = toy_gpg_child h input
      in if len + length (dr_out (fst r)) + chunk_size \<le> toy_max_size then Some r else None)"

definition toy :: "toy_host host_ops" where
  "toy = \<lparr>h_openat = (\<lambda>h p fl mode. toy_openat h p fl),
          h_open = toy_openat,
          h_close = toy_close,
          h_fstat = toy_fstat,
          h_ftruncate = toy_ftruncate,
          h_truncate = toy_truncate,
          h_rename = toy_rename,
          h_access = toy_access,
          h_mmap = toy_mmap,
          h_gpg_encrypt = toy_gpg_encrypt,
          h_gpg_decrypt = toy_gpg_decrypt,
          h_resize_ok = (\<lambda>h n. n \<le> toy_max_size)\<rparr>"

text \<open>An empty backing directory, and one that holds the non-empty file \<^verbatim>\<open>./x\<close>.\<close>

definition toy_empty :: toy_host where
  "toy_empty = \<lparr>files = Map.empty, fds = Map.empty, next_host_fd = 3\<rparr>"

definition toy_with_x :: toy_host where
  "toy_with_x = \<lparr>files = [''./x'' \<mapsto> ''abc'' @ terminator], fds = Map.empty, next_host_fd = 3\<rparr>"

text \<open>
  The state after \<^verbatim>\<open>create("/test")\<close> with \<^verbatim>\<open>O_CREAT | O_RDWR\<close> and a \<^verbatim>\<open>write\<close> of
  \<^verbatim>\<open>"abcdefg"\<close> on the empty directory, in read/write mode (\<open>demo_fs True\<close>) and in
  write-only mode (\<open>demo_fs False\<close>).
\<close>

definition demo_data :: internal where
  "demo_data = \<lparr>fd = 3, flags = 66, references = 1, path = ''/test'', buffer_set = True,
                 dirty = True, buffer = ''abcdefg'', open_m = True\<rparr>"

definition demo_fs :: "bool \<Rightarrow> toy_host asymmetricfs" where
  "demo_fs r =
     \<lparr>read_m = r, next_m = 1, open_paths_m = [''/test'' \<mapsto> 0], open_fds_m = [0 \<mapsto> demo_data],
      recipients_m = [''KEY''],
      host = \<lparr>files = [''./test'' \<mapsto> []], fds = [3 \<mapsto> (''./test'', 66, 0)], next_host_fd = 4\<rparr>\<rparr>"

text \<open>A mount of a directory in the given mode, with one recipient and nothing open.\<close>

definition mount :: "bool \<Rightarrow> 'h \<Rightarrow> 'h asymmetricfs" where
  "mount r h = (set_read (asymmetricfs_init h) r)\<lparr>recipients_m := [''KEY'']\<rparr>"

section \<open>Properties\<close>

text \<open>The definitions to unfold when a callback is evaluated on the small host.\<close>

lemmas toy_defs = toy_def toy_openat_def toy_close_def toy_content_def toy_fstat_def
  toy_truncate_def toy_ftruncate_def toy_rename_def toy_access_def toy_mmap_def
  toy_gpg_encrypt_def toy_gpg_decrypt_def toy_gpg_child_def toy_decrypt_message_def
  toy_max_size_def chunk_size_def
  toy_empty_def toy_with_x_def

lemmas const_defs = O_RDONLY_def O_WRONLY_def O_RDWR_def O_ACCMODE_def O_CREAT_def O_EXCL_def
  O_TRUNC_def O_APPEND_def R_OK_def EPERM_def ENOENT_def EIO_def EBADF_def EACCES_def EFAULT_def
  EEXIST_def EINVAL_def INT_MAX_def

lemmas op_defs = mount_def set_read_def asymmetricfs_init_def open_def open_finish_def
  insert_open_file_def next_fd_def map_insert_def make_rdwr_def relpath_def write_def read_def
  with_out_def to_int_def resize_def memcpy_at_def create_def release_def destroy_def close_def
  truncatefd_def ftruncate_def truncate_def rename_def statfd_def fgetattr_def access_def
  encrypt_argv_def string_resize_def SIZE_RANGE_def

subsection \<open>Strings and casts\<close>

lemma to_int_small: "n \<le> INT_MAX \<Longrightarrow> to_int n = int n"
  unfolding to_int_def INT_MAX_def
  by (simp add: signed_of_nat signed_take_bit_int_eq_self)

lemma length_resize: "length (resize n xs) = n"
  by (simp add: resize_def)

lemma resize_nth:
  "i < n \<Longrightarrow> resize n xs ! i = (if i < length xs then xs ! i else CHR 0x00)"
  by (auto simp: resize_def nth_append)

lemma length_memcpy_at:
  "off + length src \<le> length dst \<Longrightarrow> length (memcpy_at dst off src) = length dst"
  by (simp add: memcpy_at_def)

lemma memcpy_at_written:
  "off + length src \<le> length dst \<Longrightarrow>
     take (length src) (drop off (memcpy_at dst off src)) = src"
  by (simp add: memcpy_at_def)

lemma memcpy_at_other:
  "off + length src \<le> length dst \<Longrightarrow> i < length dst \<Longrightarrow>
     \<not> (off \<le> i \<and> i < off + length src) \<Longrightarrow> memcpy_at dst off src ! i = dst ! i"
  by (auto simp: memcpy_at_def nth_append)

lemma resize_zero: "resize 0 xs = []"
  by (simp add: resize_def)

subsection \<open>The small host\<close>

lemma toy_errno_nonzero: "errno_nonzero toy"
  by (auto simp: errno_nonzero_def toy_def toy_openat_def toy_fstat_def toy_mmap_def
      toy_content_def EEXIST_def ENOENT_def EBADF_def EACCES_def split: option.splits)

lemma toy_truncate_twice:
  "toy_truncate (snd (toy_truncate h p 0)) p 0 = toy_truncate h p 0"
  by (cases "files h p") (simp_all add: toy_truncate_def resize_zero)

lemma toy_ftruncate_twice:
  "toy_ftruncate (snd (toy_ftruncate h n 0)) n 0 = toy_ftruncate h n 0"
proof (cases "fds h n")
  case None
  then show ?thesis by (simp add: toy_ftruncate_def)
next
  case (Some a)
  obtain p fl pos where a: "a = (p, fl, pos)" by (cases a)
  have "fds (snd (toy_truncate h p 0)) = fds h"
    by (cases "files h p") (simp_all add: toy_truncate_def)
  then show ?thesis
    using Some a toy_truncate_twice[of h p] by (simp add: toy_ftruncate_def)
qed

lemma toy_settles: "truncate_zero_settles toy h p"
  by (simp add: truncate_zero_settles_def toy_def toy_truncate_twice toy_ftruncate_twice)

subsection \<open>A state whose buffer is known\<close>

lemma load_buffer_known: "buffer_set d \<Longrightarrow> load_buffer H d h = Some (0, d, h)"
  by (simp add: load_buffer_def)

lemma table_update_same:
  "open_fds_m s fh = Some d \<Longrightarrow> s\<lparr>open_fds_m := (open_fds_m s)(fh \<mapsto> d), host := host s\<rparr> = s"
  by (simp add: fun_upd_idem)

subsection \<open>write\<close>

lemma to_int_big: "INT_MAX < n \<Longrightarrow> to_int n \<noteq> int n"
proof -
  assume a: "INT_MAX < n"
  have "sint (word_of_nat n :: 32 word) < 2 ^ (LENGTH(32) - 1)"
    by (rule sint_lt)
  then have "to_int n < 2147483648" by (simp add: to_int_def)
  then show ?thesis using a by (simp add: INT_MAX_def)
qed

lemma write_known_handle:
  assumes "open_fds_m s fh = Some d" "buf \<noteq> []" "0 \<le> off"
    and "nat off + length buf < SIZE_RANGE"
    and "nat off + length buf \<le> length (buffer d) \<or> h_resize_ok H (host s) (nat off + length buf)"
  shows "write H s buf off fh
     = Some (to_int (length buf),
             s\<lparr>open_fds_m := (open_fds_m s)(fh \<mapsto>
                  d\<lparr>buffer := memcpy_at (resize (max (length (buffer d)) (nat off + length buf))
                                    (buffer d)) (nat off) buf,
                    dirty := True\<rparr>)\<rparr>)"
proof -
  define n where "n = max (length (buffer d)) (nat off + length buf)"
  have m: "(nat off + length buf) mod SIZE_RANGE = nat off + length buf"
    using assms(4) by simp
  have r: "string_resize H (host s) n (buffer d) = Some (resize n (buffer d))"
    using assms(5) by (auto simp: string_resize_def n_def max_def)
  have l: "\<not> length (resize n (buffer d)) < nat off + length buf"
    by (simp add: length_resize n_def)
  show ?thesis
    using assms(1,2,3) l r
    by (simp add: write_def Let_def m n_def[symmetric])
qed

lemma write_resize_fails:
  assumes "open_fds_m s fh = Some d" "buf \<noteq> []" "0 \<le> off"
    and "nat off + length buf < SIZE_RANGE"
    and "length (buffer d) < nat off + length buf"
    and "\<not> h_resize_ok H (host s) (nat off + length buf)"
  shows "write H s buf off fh = None"
proof -
  have m: "(nat off + length buf) mod SIZE_RANGE = nat off + length buf"
    using assms(4) by simp
  have "string_resize H (host s) (max (length (buffer d)) (nat off + length buf)) (buffer d) = None"
    using assms(5,6) by (simp add: string_resize_def max_def)
  then show ?thesis
    using assms(1,2,3) by (simp add: write_def Let_def m)
qed

text \<open>
  Claim C7, as stated, fails in two ways. On the handle 0 of \<open>demo_fs False\<close>, a \<^verbatim>\<open>write\<close> of
  \<open>2\<^sup>3\<^sup>1\<close> bytes at offset 0 returns \<^verbatim>\<open>static_cast<int>(size)\<close>, which is \<open>-2147483648\<close> and
  not \<open>size\<close>; and a \<^verbatim>\<open>write\<close> of one byte at offset \<open>2\<^sup>6\<^sup>3 - 1\<close> asks the string for more than
  \<^verbatim>\<open>max_size()\<close> bytes, so that \<^verbatim>\<open>resize\<close> throws and \<^verbatim>\<open>write\<close> does not return.
\<close>

theorem write_size_counterexample:
  "open_fds_m (demo_fs False) 0 = Some demo_data \<and>
   map_option fst (write toy (demo_fs False) (replicate 2147483648 (CHR ''a'')) 0 0)
     = Some (- 2147483648) \<and>
   int (length (replicate 2147483648 (CHR ''a''))) \<noteq> - 2147483648 \<and>
   write toy (demo_fs False) ''x'' 9223372036854775807 0 = None"
proof -
  have d: "open_fds_m (demo_fs False) 0 = Some demo_data"
    by (simp add: demo_fs_def)
  have "write toy (demo_fs False) (replicate 2147483648 (CHR ''a'')) 0 0
      = Some (to_int (length (replicate 2147483648 (CHR ''a''))),
              (demo_fs False)\<lparr>open_fds_m := (open_fds_m (demo_fs False))(0 \<mapsto>
                  demo_data\<lparr>buffer := memcpy_at
                       (resize (max (length (buffer demo_data))
                                  (nat 0 + length (replicate 2147483648 (CHR ''a''))))
                          (buffer demo_data)) (nat 0) (replicate 2147483648 (CHR ''a'')),
                    dirty := True\<rparr>)\<rparr>)"
    by (rule write_known_handle[OF d])
       (simp_all add: SIZE_RANGE_def toy_def toy_max_size_def)
  moreover have "to_int (length (replicate 2147483648 (CHR ''a''))) = - 2147483648"
    by (simp add: to_int_def)
  ultimately have 1: "map_option fst
      (write toy (demo_fs False) (replicate 2147483648 (CHR ''a'')) 0 0) = Some (- 2147483648)"
    by (simp)
  have 2: "write toy (demo_fs False) ''x'' 9223372036854775807 0 = None"
    by (rule write_resize_fails[OF d])
       (simp_all add: SIZE_RANGE_def toy_def toy_max_size_def demo_data_def)
  show ?thesis using d 1 2 by (simp)
qed

text \<open>
  Claim C7, amended. On a valid handle, \<^verbatim>\<open>write\<close> of no bytes returns 0 and changes nothing;
  with bytes and a negative offset it returns \<open>-EINVAL\<close> and changes nothing. With bytes at
  an offset \<open>\<ge> 0\<close> such that \<open>offset + size\<close> fits \<^verbatim>\<open>size_t\<close>: when the buffer already has
  \<open>offset + size\<close> bytes or the string can grow to that length, the buffer gets the length
  \<open>max (buffer.size) (offset + size)\<close>, holds the input bytes at \<open>offset\<close>, keeps its other
  old bytes and is NUL where it grew, \<open>dirty\<close> is set, no other field and no part of the
  host (hence no backing file) changes, and the return value is
  \<^verbatim>\<open>static_cast<int>(size)\<close>, which is \<open>size\<close> exactly when \<open>size \<le> INT_MAX\<close>; when the
  buffer has to grow and the string cannot (\<^verbatim>\<open>resize\<close> throws), \<^verbatim>\<open>write\<close> does not return.
\<close>

theorem write_contract:
  "open_fds_m s fh = Some data \<Longrightarrow>
   write H s [] off fh = Some (0, s) \<and>
   (buf \<noteq> [] \<and> off < 0 \<longrightarrow> write H s buf off fh = Some (- EINVAL, s)) \<and>
   (buf \<noteq> [] \<and> 0 \<le> off \<and> nat off + length buf < SIZE_RANGE \<and>
    (nat off + length buf \<le> length (buffer data) \<or>
     h_resize_ok H (host s) (nat off + length buf)) \<longrightarrow>
      (\<exists>data'. write H s buf off fh
            = Some (to_int (length buf), s\<lparr>open_fds_m := (open_fds_m s)(fh \<mapsto> data')\<rparr>) \<and>
         (length buf \<le> INT_MAX \<longleftrightarrow> to_int (length buf) = int (length buf)) \<and>
         data' = data\<lparr>buffer := buffer data', dirty := True\<rparr> \<and>
         length (buffer data') = max (length (buffer data)) (nat off + length buf) \<and>
         take (length buf) (drop (nat off) (buffer data')) = buf \<and>
         (\<forall>i < length (buffer data'). \<not> (nat off \<le> i \<and> i < nat off + length buf) \<longrightarrow>
            buffer data' ! i = (if i < length (buffer data) then buffer data ! i else CHR 0x00)) \<and>
         host (s\<lparr>open_fds_m := (open_fds_m s)(fh \<mapsto> data')\<rparr>) = host s)) \<and>
   (buf \<noteq> [] \<and> 0 \<le> off \<and> nat off + length buf < SIZE_RANGE \<and>
    length (buffer data) < nat off + length buf \<and>
    \<not> h_resize_ok H (host s) (nat off + length buf) \<longrightarrow>
      write H s buf off fh = None)"
proof (intro conjI impI)
  assume h: "open_fds_m s fh = Some data"
  show "write H s [] off fh = Some (0, s)" using h by (simp add: write_def)
  { assume "buf \<noteq> [] \<and> off < 0"
    then show "write H s buf off fh = Some (- EINVAL, s)" using h by (simp add: write_def) }
  { assume "buf \<noteq> [] \<and> 0 \<le> off \<and> nat off + length buf < SIZE_RANGE \<and>
      length (buffer data) < nat off + length buf \<and>
      \<not> h_resize_ok H (host s) (nat off + length buf)"
    then show "write H s buf off fh = None"
      using write_resize_fails[OF h, of buf off H] by blast }
  assume b: "buf \<noteq> [] \<and> 0 \<le> off \<and> nat off + length buf < SIZE_RANGE \<and>
    (nat off + length buf \<le> length (buffer data) \<or>
     h_resize_ok H (host s) (nat off + length buf))"
  define n where "n = max (length (buffer data)) (nat off + length buf)"
  define data' where
    "data' = data\<lparr>buffer := memcpy_at (resize n (buffer data)) (nat off) buf, dirty := True\<rparr>"
  have fit: "nat off + length buf \<le> length (resize n (buffer data))"
    by (simp add: length_resize n_def)
  have 1: "write H s buf off fh
      = Some (to_int (length buf), s\<lparr>open_fds_m := (open_fds_m s)(fh \<mapsto> data')\<rparr>)"
    using write_known_handle[OF h, of buf off H] b by (simp add: data'_def n_def)
  have 2: "length buf \<le> INT_MAX \<longleftrightarrow> to_int (length buf) = int (length buf)"
    using to_int_small[of "length buf"] to_int_big[of "length buf"]
    by (cases "length buf \<le> INT_MAX") (auto simp: not_le)
  have 3: "data' = data\<lparr>buffer := buffer data', dirty := True\<rparr>"
    by (simp add: data'_def)
  have 4: "length (buffer data') = n"
    using fit by (simp add: data'_def length_memcpy_at length_resize)
  have 5: "take (length buf) (drop (nat off) (buffer data')) = buf"
    using fit by (simp add: data'_def memcpy_at_written)
  have 6: "\<forall>i < length (buffer data'). \<not> (nat off \<le> i \<and> i < nat off + length buf) \<longrightarrow>
            buffer data' ! i = (if i < length (buffer data) then buffer data ! i else CHR 0x00)"
  proof (intro allI impI)
    fix i
    assume i: "i < length (buffer data')"
      and o: "\<not> (nat off \<le> i \<and> i < nat off + length buf)"
    from i 4 have "i < n" by simp
    then have "i < length (resize n (buffer data))" by (simp add: length_resize)
    with fit o
    have "memcpy_at (resize n (buffer data)) (nat off) buf ! i = resize n (buffer data) ! i"
      by (simp add: memcpy_at_other)
    then show "buffer data' ! i = (if i < length (buffer data) then buffer data ! i else CHR 0x00)"
      using \<open>i < n\<close> by (simp add: data'_def resize_nth)
  qed
  show "\<exists>data'. write H s buf off fh
            = Some (to_int (length buf), s\<lparr>open_fds_m := (open_fds_m s)(fh \<mapsto> data')\<rparr>) \<and>
         (length buf \<le> INT_MAX \<longleftrightarrow> to_int (length buf) = int (length buf)) \<and>
         data' = data\<lparr>buffer := buffer data', dirty := True\<rparr> \<and>
         length (buffer data') = max (length (buffer data)) (nat off + length buf) \<and>
         take (length buf) (drop (nat off) (buffer data')) = buf \<and>
         (\<forall>i < length (buffer data'). \<not> (nat off \<le> i \<and> i < nat off + length buf) \<longrightarrow>
            buffer data' ! i = (if i < length (buffer data) then buffer data ! i else CHR 0x00)) \<and>
         host (s\<lparr>open_fds_m := (open_fds_m s)(fh \<mapsto> data')\<rparr>) = host s"
    apply (rule exI[of _ data'])
    using 1 2 3 4 5 6 by (simp add: n_def)
qed

theorem write_contract_witness:
  "open_fds_m (demo_fs False) 0 = Some demo_data \<and> ''XY'' \<noteq> [] \<and> (0::int) \<le> 5 \<and>
   nat 5 + length ''XY'' < SIZE_RANGE \<and> h_resize_ok toy (host (demo_fs False)) (nat 5 + length ''XY'') \<and>
   length ''XY'' \<le> INT_MAX \<and>
   write toy (demo_fs False) ''XY'' 5 0
     = Some (2, (demo_fs False)\<lparr>open_fds_m :=
                  (open_fds_m (demo_fs False))(0 \<mapsto> demo_data\<lparr>buffer := ''abcdeXY'', dirty := True\<rparr>)\<rparr>) \<and>
   length (buffer demo_data) < nat 4611686018427387903 + length ''XY'' \<and>
   \<not> h_resize_ok toy (host (demo_fs False)) (nat 4611686018427387903 + length ''XY'') \<and>
   write toy (demo_fs False) ''XY'' 4611686018427387903 0 = None"
  using write_contract [of "demo_fs False" 0 demo_data toy 5 "''XY''"]
    write_contract [of "demo_fs False" 0 demo_data toy 4611686018427387903 "''XY''"]
  by (simp add: demo_fs_def demo_data_def INT_MAX_def write_def to_int_def memcpy_at_def resize_def
      string_resize_def SIZE_RANGE_def toy_def toy_max_size_def)

subsection \<open>read\<close>

text \<open>
  Claim C1. The claim is that \<^verbatim>\<open>read\<close> hands back the bytes of the buffer that start at
  \<open>offset\<close>. On a handle with the known buffer \<^verbatim>\<open>"abcdefg"\<close>, a read of 2 bytes at offset 3
  in read/write mode returns 2 and hands back \<^verbatim>\<open>"ab"\<close>, the start of the buffer
  (\<^verbatim>\<open>memcpy(buffer, str.data(), remaining)\<close>), for every host; the same read in write-only
  mode hands back \<^verbatim>\<open>"de"\<close> (\<^verbatim>\<open>memcpy(buffer, str.data() + offset, remaining)\<close>).
\<close>

theorem read_offset_ignored:
  "read H (demo_fs True) 2 3 0 = Some (2, ''ab'', demo_fs True) \<and>
   read H (demo_fs False) 2 3 0 = Some (2, ''de'', demo_fs False)"
  by (simp add: read_def demo_fs_def demo_data_def load_buffer_def INT_MAX_def to_int_def
      O_APPEND_def O_CREAT_def)

theorem read_offset_ignored_witness:
  "read toy (demo_fs True) 2 3 0 = Some (2, ''ab'', demo_fs True) \<and>
   read toy (demo_fs False) 2 3 0 = Some (2, ''de'', demo_fs False)"
  by (rule read_offset_ignored)

subsection \<open>access\<close>

text \<open>
  Claim C6, as stated, fails: in write-only mode \<^verbatim>\<open>access\<close> with \<^verbatim>\<open>R_OK\<close> on a path that the
  host does not have returns the host's \<open>-ENOENT\<close>, not \<open>-EACCES\<close>.
\<close>

theorem access_host_error_counterexample:
  "R_OK AND R_OK \<noteq> 0 \<and> \<not> read_m (mount False toy_empty) \<and>
   access toy (mount False toy_empty) ''/x'' R_OK = Some (- ENOENT, mount False toy_empty) \<and>
   - ENOENT \<noteq> - EACCES"
  by (simp add: access_def mount_def set_read_def asymmetricfs_init_def toy_def toy_access_def
      toy_empty_def relpath_def R_OK_def ENOENT_def EACCES_def)

text \<open>
  Claim C6, amended. If the caller requests \<^verbatim>\<open>R_OK\<close> and reading is disabled, \<^verbatim>\<open>access\<close>
  returns \<open>-EACCES\<close> whenever the host's \<^verbatim>\<open>access\<close> succeeds, and the negated host
  \<^verbatim>\<open>errno\<close> when it fails; the state does not change.
\<close>

theorem access_read_denied:
  "mode AND R_OK \<noteq> 0 \<Longrightarrow> \<not> read_m s \<Longrightarrow>
   access H s p mode
     = Some (case h_access H (host s) (relpath p) mode of Inr _ \<Rightarrow> - EACCES | Inl errno \<Rightarrow> - errno, s)"
  by (simp add: access_def split: sum.splits)

theorem access_read_denied_witness:
  "R_OK AND R_OK \<noteq> 0 \<and> \<not> read_m (mount False toy_with_x) \<and>
   access toy (mount False toy_with_x) ''/x'' R_OK = Some (- EACCES, mount False toy_with_x)"
  using access_read_denied [of R_OK "mount False toy_with_x" toy "''/x''"]
  by (simp add: mount_def set_read_def asymmetricfs_init_def toy_def toy_access_def
      toy_with_x_def relpath_def R_OK_def)

subsection \<open>Unknown handles\<close>

text \<open>
  Claim C10. With a handle id that is not in the handle table, \<^verbatim>\<open>release\<close> returns 0 and
  leaves the state as it is, while \<^verbatim>\<open>read\<close>, \<^verbatim>\<open>write\<close>, \<^verbatim>\<open>ftruncate\<close> and \<^verbatim>\<open>fgetattr\<close>
  (called with an output buffer) return \<open>-EBADF\<close>, also without a change.
\<close>

theorem unknown_handle:
  "open_fds_m s fh = None \<Longrightarrow> info_fh info = fh \<Longrightarrow>
   release H s info = Some (0, s) \<and>
   read H s sz off fh = Some (- EBADF, [], s) \<and>
   write H s buf off fh = Some (- EBADF, s) \<and>
   ftruncate H s off info = Some (- EBADF, s) \<and>
   fgetattr H s False info = Some (- EBADF, None, s)"
  by (simp add: release_def read_def write_def ftruncate_def truncatefd_def fgetattr_def statfd_def)

theorem unknown_handle_witness:
  "open_fds_m (demo_fs True) 7 = None \<and> info_fh \<lparr>info_flags = 0, info_fh = 7\<rparr> = 7 \<and>
   release toy (demo_fs True) \<lparr>info_flags = 0, info_fh = 7\<rparr> = Some (0, demo_fs True) \<and>
   read toy (demo_fs True) 10 0 7 = Some (- EBADF, [], demo_fs True) \<and>
   write toy (demo_fs True) ''abc'' 0 7 = Some (- EBADF, demo_fs True) \<and>
   ftruncate toy (demo_fs True) 0 \<lparr>info_flags = 0, info_fh = 7\<rparr> = Some (- EBADF, demo_fs True) \<and>
   fgetattr toy (demo_fs True) False \<lparr>info_flags = 0, info_fh = 7\<rparr> = Some (- EBADF, None, demo_fs True)"
  using unknown_handle [of "demo_fs True" 7 "\<lparr>info_flags = 0, info_fh = 7\<rparr>" toy 10 0 "''abc''"]
  by (simp add: demo_fs_def)

subsection \<open>release\<close>

lemma close_open:
  "open_m d \<Longrightarrow>
   close H rcpts d h =
     (if dirty d
      then let r = h_gpg_encrypt H h (encrypt_argv rcpts) (fd d) (buffer d);
               c = h_close H (snd r) (fd d)
           in (if fst r \<noteq> 0 then - EIO else (case fst c of Inr _ \<Rightarrow> 0 | Inl errno \<Rightarrow> errno),
               d\<lparr>dirty := False, open_m := False\<rparr>, snd c)
      else let c = h_close H h (fd d)
           in (case fst c of Inr _ \<Rightarrow> 0 | Inl errno \<Rightarrow> errno, d\<lparr>open_m := False\<rparr>, snd c))"
  by (simp add: close_def Let_def EIO_def)

lemma close_host:
  "open_m d \<Longrightarrow>
   snd (snd (close H rcpts d h)) =
     snd (h_close H (if dirty d then snd (h_gpg_encrypt H h (encrypt_argv rcpts) (fd d) (buffer d))
                     else h) (fd d))"
  by (simp add: close_open Let_def)

text \<open>
  Claim C4. \<^verbatim>\<open>release\<close> returns 0 whatever the host and the gpg child do. On a known
  handle it decrements the reference count. If the count stays nonzero nothing else
  changes. If it reaches zero, the entry of the state's path and the entry of the handle
  id are removed and the state is destroyed: the host sees the encryption of the buffer
  to the backing descriptor followed by its \<^verbatim>\<open>close\<close> if \<open>dirty\<close> is set, and only the
  \<^verbatim>\<open>close\<close> if it is not.
\<close>

theorem release_contract:
  "(\<exists>s'. release H s info = Some (0, s')) \<and>
   (\<forall>d. open_fds_m s (info_fh info) = Some d \<and> open_m d \<longrightarrow>
      (references d - 1 \<noteq> 0 \<longrightarrow>
         release H s info
           = Some (0, s\<lparr>open_fds_m :=
                          (open_fds_m s)(info_fh info \<mapsto> d\<lparr>references := references d - 1\<rparr>)\<rparr>)) \<and>
      (references d - 1 = 0 \<longrightarrow>
         release H s info
           = Some (0, s\<lparr>open_paths_m := (open_paths_m s)(path d := None),
                        open_fds_m := (open_fds_m s)(info_fh info := None),
                        host := snd (h_close H
                                  (if dirty d
                                   then snd (h_gpg_encrypt H (host s) (encrypt_argv (recipients_m s))
                                               (fd d) (buffer d))
                                   else host s)
                                  (fd d))\<rparr>)))"
proof (intro conjI allI impI)
  show "\<exists>s'. release H s info = Some (0, s')"
    by (cases "open_fds_m s (info_fh info)") (simp_all add: release_def destroy_def Let_def)
next
  fix d
  assume a: "open_fds_m s (info_fh info) = Some d \<and> open_m d" and n: "references d - 1 \<noteq> 0"
  then show "release H s info
           = Some (0, s\<lparr>open_fds_m :=
                          (open_fds_m s)(info_fh info \<mapsto> d\<lparr>references := references d - 1\<rparr>)\<rparr>)"
    by (simp add: release_def Let_def)
next
  fix d
  assume a: "open_fds_m s (info_fh info) = Some d \<and> open_m d" and z: "references d - 1 = 0"
  have "open_m (d\<lparr>references := 0\<rparr>)" using a by simp
  from close_host[OF this, of H "recipients_m s" "host s"]
  show "release H s info
           = Some (0, s\<lparr>open_paths_m := (open_paths_m s)(path d := None),
                        open_fds_m := (open_fds_m s)(info_fh info := None),
                        host := snd (h_close H
                                  (if dirty d
                                   then snd (h_gpg_encrypt H (host s) (encrypt_argv (recipients_m s))
                                               (fd d) (buffer d))
                                   else host s)
                                  (fd d))\<rparr>)"
    using a z by (simp add: release_def destroy_def Let_def)
qed

theorem release_contract_witness:
  "open_fds_m (demo_fs True) (info_fh \<lparr>info_flags = 66, info_fh = 0\<rparr>) = Some demo_data \<and>
   open_m demo_data \<and> references demo_data - 1 = 0 \<and> dirty demo_data \<and>
   release toy (demo_fs True) \<lparr>info_flags = 66, info_fh = 0\<rparr>
     = Some (0, \<lparr>read_m = True, next_m = 1, open_paths_m = Map.empty, open_fds_m = Map.empty,
                 recipients_m = [''KEY''],
                 host = \<lparr>files = [''./test'' \<mapsto> ''abcdefg'' @ terminator], fds = Map.empty,
                          next_host_fd = 4\<rparr>\<rparr>)"
  using release_contract [of toy "demo_fs True" "\<lparr>info_flags = 66, info_fh = 0\<rparr>"]
  by (simp add: demo_fs_def demo_data_def toy_def toy_close_def toy_gpg_encrypt_def O_APPEND_def
      O_ACCMODE_def O_RDONLY_def encrypt_argv_def memcpy_at_def resize_def terminator_def)

subsection \<open>open: handles on one path share one state\<close>

lemma open_existing:
  "open_paths_m s p = Some fh \<Longrightarrow> open_fds_m s fh = Some d \<Longrightarrow>
   open H s p info
     = Some (0, info\<lparr>info_fh := fh\<rparr>,
             s\<lparr>open_fds_m := (open_fds_m s)(fh \<mapsto> d\<lparr>references := references d + 1\<rparr>)\<rparr>)"
  by (simp add: open_def)

lemma written_bytes:
  "take (length buf)
     (drop off (memcpy_at (resize (max (length old) (off + length buf)) old) off buf)) = buf"
  by (rule memcpy_at_written) (simp add: length_resize)

lemma written_length:
  "length (memcpy_at (resize (max (length old) (off + length buf)) old) off buf)
     = max (length old) (off + length buf)"
  by (simp add: length_memcpy_at length_resize)

lemma read_write_only_known:
  assumes "open_fds_m s fh = Some d" "\<not> read_m s" "buffer_set d" "0 \<le> off"
    and "nat off + n \<le> length (buffer d)" "n \<le> INT_MAX"
  shows "read H s n off fh = Some (int n, take n (drop (nat off) (buffer d)), s)"
proof -
  have "min (min (length (buffer d) - nat off) n) INT_MAX = n"
    using assms by simp
  then show ?thesis
    using assms by (simp add: read_def Let_def to_int_small)
qed

lemma read_read_mode_known:
  assumes "open_fds_m s fh = Some d" "read_m s" "buffer_set d" "0 \<le> off"
    and "nat off + n \<le> length (buffer d)" "0 < n" "n < INT_MAX"
  shows "read H s n off fh = Some (int n, take n (buffer d), s)"
proof -
  have "min (length (buffer d) - nat off) n = n"
    using assms by simp
  then show ?thesis
    using assms by (simp add: read_def Let_def to_int_small load_buffer_known table_update_same)
qed

lemma load_buffer_path: "load_buffer H d h = Some (r, d1, h1) \<Longrightarrow> path d1 = path d"
  by (auto simp: load_buffer_def Let_def split: if_splits sum.splits option.splits)

lemma tables_agreeD1:
  "tables_agree s \<Longrightarrow> open_paths_m s p = Some fh \<Longrightarrow> \<exists>d. open_fds_m s fh = Some d \<and> path d = p"
  unfolding tables_agree_def by blast

lemma tables_agreeD2:
  "tables_agree s \<Longrightarrow> open_fds_m s fh = Some d \<Longrightarrow> open_paths_m s (path d) = Some fh"
  unfolding tables_agree_def by blast

lemma tables_agreeD3:
  "tables_agree s \<Longrightarrow> open_fds_m s fh = Some d \<Longrightarrow> fh < next_m s"
  unfolding tables_agree_def by blast

lemma tables_agree_same:
  "tables_agree s \<Longrightarrow> open_paths_m s1 = open_paths_m s \<Longrightarrow> open_fds_m s1 = open_fds_m s \<Longrightarrow>
     next_m s1 = next_m s \<Longrightarrow> tables_agree s1"
  by (simp add: tables_agree_def)

lemma tables_agree_update:
  assumes "tables_agree s" "open_fds_m s fh = Some d" "path d' = path d"
    and "open_paths_m s1 = open_paths_m s" "open_fds_m s1 = (open_fds_m s)(fh \<mapsto> d')"
    and "next_m s1 = next_m s"
  shows "tables_agree s1"
  unfolding tables_agree_def
proof (rule conjI; intro allI impI)
  fix p g
  assume "open_paths_m s1 p = Some g"
  then obtain e where e: "open_fds_m s g = Some e" "path e = p"
    using assms(1,4) by (auto dest: tables_agreeD1)
  show "\<exists>d. open_fds_m s1 g = Some d \<and> path d = p"
  proof (cases "g = fh")
    case True
    then show ?thesis using e assms(2,3,5) by simp
  next
    case False
    then show ?thesis using e assms(5) by simp
  qed
next
  fix g e
  assume a: "open_fds_m s1 g = Some e"
  show "open_paths_m s1 (path e) = Some g \<and> g < next_m s1"
  proof (cases "g = fh")
    case True
    then have "e = d'" using a assms(5) by simp
    then show ?thesis
      using True tables_agreeD2[OF assms(1,2)] tables_agreeD3[OF assms(1,2)] assms(3,4,6) by simp
  next
    case False
    then have "open_fds_m s g = Some e" using a assms(5) by simp
    then show ?thesis
      using assms(4,6) by (auto dest: tables_agreeD2[OF assms(1)] tables_agreeD3[OF assms(1)])
  qed
qed

lemma tables_agree_shape:
  assumes "tables_agree s"
    and "open_paths_m s1 = open_paths_m s \<and> next_m s1 = next_m s \<and>
         (open_fds_m s1 = open_fds_m s \<or>
          (\<exists>d d'. open_fds_m s fh = Some d \<and> open_fds_m s1 = (open_fds_m s)(fh \<mapsto> d') \<and>
                   path d' = path d))"
  shows "tables_agree s1"
proof -
  from assms(2) have p: "open_paths_m s1 = open_paths_m s" and n: "next_m s1 = next_m s"
    and c: "open_fds_m s1 = open_fds_m s \<or>
          (\<exists>d d'. open_fds_m s fh = Some d \<and> open_fds_m s1 = (open_fds_m s)(fh \<mapsto> d') \<and>
                   path d' = path d)" by simp_all
  from c show ?thesis
  proof
    assume "open_fds_m s1 = open_fds_m s"
    then show ?thesis using assms(1) p n by (simp add: tables_agree_def)
  next
    assume "\<exists>d d'. open_fds_m s fh = Some d \<and> open_fds_m s1 = (open_fds_m s)(fh \<mapsto> d') \<and>
                   path d' = path d"
    then obtain d d' where "open_fds_m s fh = Some d" "open_fds_m s1 = (open_fds_m s)(fh \<mapsto> d')"
      "path d' = path d" by blast
    then show ?thesis using tables_agree_update[OF assms(1) _ _ p _ n] by blast
  qed
qed

lemma tables_agree_insert:
  assumes "tables_agree s" "open_paths_m s p = None" "path d = p"
    and "open_paths_m s1 = map_insert (open_paths_m s) p (next_m s)"
    and "open_fds_m s1 = map_insert (open_fds_m s) (next_m s) d"
    and "next_m s1 = next_m s + 1"
  shows "tables_agree s1"
proof -
  have f: "open_fds_m s (next_m s) = None"
  proof (cases "open_fds_m s (next_m s)")
    case None then show ?thesis .
  next
    case (Some e)
    then have "next_m s < next_m s" using assms(1) by (rule tables_agreeD3[rotated])
    then show ?thesis by simp
  qed
  have P: "open_paths_m s1 = (open_paths_m s)(p \<mapsto> next_m s)"
    using assms(2,4) by (simp add: map_insert_def)
  have F: "open_fds_m s1 = (open_fds_m s)(next_m s \<mapsto> d)"
    using f assms(5) by (simp add: map_insert_def)
  show ?thesis
    unfolding tables_agree_def
  proof (rule conjI; intro allI impI)
    fix q g
    assume a: "open_paths_m s1 q = Some g"
    show "\<exists>d. open_fds_m s1 g = Some d \<and> path d = q"
    proof (cases "q = p")
      case True
      then show ?thesis using a P F assms(3) by simp
    next
      case False
      then have "open_paths_m s q = Some g" using a P by simp
      then obtain e where e: "open_fds_m s g = Some e" "path e = q"
        using assms(1) by (auto dest: tables_agreeD1 tables_agreeD2 tables_agreeD3)
      then have "g \<noteq> next_m s" using f by auto
      then show ?thesis using e F by simp
    qed
  next
    fix g e
    assume a: "open_fds_m s1 g = Some e"
    show "open_paths_m s1 (path e) = Some g \<and> g < next_m s1"
    proof (cases "g = next_m s")
      case True
      then show ?thesis using a P F assms(3,6) by simp
    next
      case False
      then have e: "open_fds_m s g = Some e" using a F by simp
      then have k: "open_paths_m s (path e) = Some g" "g < next_m s"
        using assms(1) by (auto dest: tables_agreeD1 tables_agreeD2 tables_agreeD3)
      then have "path e \<noteq> p" using assms(2) by auto
      then show ?thesis using k P assms(6) by simp
    qed
  qed
qed

lemma tables_agree_remove:
  assumes "tables_agree s" "open_fds_m s fh = Some d"
    and "open_paths_m s1 = (open_paths_m s)(path d := None)"
    and "open_fds_m s1 = (open_fds_m s)(fh := None)"
    and "next_m s1 = next_m s"
  shows "tables_agree s1"
  unfolding tables_agree_def
proof (rule conjI; intro allI impI)
  fix q g
  assume a: "open_paths_m s1 q = Some g"
  then have q: "q \<noteq> path d" "open_paths_m s q = Some g"
    using assms(3) by (auto split: if_splits)
  then obtain e where e: "open_fds_m s g = Some e" "path e = q"
    using assms(1) by (auto dest: tables_agreeD1 tables_agreeD2 tables_agreeD3)
  then have "g \<noteq> fh" using q assms(2) by auto
  then show "\<exists>d. open_fds_m s1 g = Some d \<and> path d = q"
    using e assms(4) by simp
next
  fix g e
  assume a: "open_fds_m s1 g = Some e"
  then have g: "g \<noteq> fh" "open_fds_m s g = Some e"
    using assms(4) by (auto split: if_splits)
  then have k: "open_paths_m s (path e) = Some g" "g < next_m s"
    using assms(1) by (auto dest: tables_agreeD1 tables_agreeD2 tables_agreeD3)
  have "open_paths_m s (path d) = Some fh"
    using assms(1,2) by (rule tables_agreeD2)
  then have "path e \<noteq> path d" using k g by auto
  then show "open_paths_m s1 (path e) = Some g \<and> g < next_m s1"
    using k assms(3,5) by simp
qed

lemma tables_agree_rename:
  assumes "tables_agree s" "open_paths_m s a = Some fh" "open_fds_m s fh = Some d"
    and "open_paths_m s b = None"
    and "open_paths_m s1 = (map_insert (open_paths_m s) b fh)(a := None)"
    and "open_fds_m s1 = (open_fds_m s)(fh \<mapsto> d\<lparr>path := b\<rparr>)"
    and "next_m s1 = next_m s"
  shows "tables_agree s1"
proof -
  have ab: "a \<noteq> b" using assms(2,4) by auto
  have P: "open_paths_m s1 = ((open_paths_m s)(b \<mapsto> fh))(a := None)"
    using assms(4,5) by (simp add: map_insert_def)
  have pd: "path d = a"
    using tables_agreeD1[OF assms(1,2)] assms(3) by auto
  show ?thesis
    unfolding tables_agree_def
  proof (rule conjI; intro allI impI)
    fix q g
    assume x: "open_paths_m s1 q = Some g"
    show "\<exists>d. open_fds_m s1 g = Some d \<and> path d = q"
    proof (cases "q = b")
      case True
      then have "g = fh" using x P ab by simp
      then show ?thesis using True assms(6) by simp
    next
      case False
      then have q: "q \<noteq> a" "open_paths_m s q = Some g"
        using x P by (auto split: if_splits)
      then obtain e where e: "open_fds_m s g = Some e" "path e = q"
        using assms(1) by (auto dest: tables_agreeD1 tables_agreeD2 tables_agreeD3)
      then have "g \<noteq> fh" using q assms(3) pd by auto
      then show ?thesis using e assms(6) by simp
    qed
  next
    fix g e
    assume x: "open_fds_m s1 g = Some e"
    show "open_paths_m s1 (path e) = Some g \<and> g < next_m s1"
    proof (cases "g = fh")
      case True
      then have "e = d\<lparr>path := b\<rparr>" using x assms(6) by simp
      moreover have "fh < next_m s" using assms(1,3) by (rule tables_agreeD3)
      ultimately show ?thesis using True P ab assms(7) by simp
    next
      case False
      then have e: "open_fds_m s g = Some e" using x assms(6) by simp
      then have k: "open_paths_m s (path e) = Some g" "g < next_m s"
        using assms(1) by (auto dest: tables_agreeD1 tables_agreeD2 tables_agreeD3)
      then have "path e \<noteq> a" "path e \<noteq> b" using False assms(2,4) by auto
      then show ?thesis using k P assms(7) by simp
    qed
  qed
qed

lemma tables_agree_one_state: "tables_agree s \<Longrightarrow> one_state_per_path s"
  unfolding tables_agree_def one_state_per_path_def
  by (metis option.inject)


lemma host_update_agree: "tables_agree s \<Longrightarrow> tables_agree (s\<lparr>host := h\<rparr>)"
  by (simp add: tables_agree_def)

lemma insert_open_file_agree:
  assumes "insert_open_file s p info ret fl bs = (r, i, s1)" "tables_agree s"
    "open_paths_m s p = None"
  shows "tables_agree s1"
  by (rule tables_agree_insert[OF assms(2,3), where
        d = "\<lparr>fd = ret, flags = fl, references = 1, path = p, buffer_set = bs,
              dirty = False, buffer = [], open_m = True\<rparr>"])
     (use assms(1) in \<open>auto simp: insert_open_file_def next_fd_def Let_def\<close>)

lemma create_agree:
  assumes "create H s p mode info = Some (r, i, s1)" "tables_agree s" "open_paths_m s p = None"
  shows "tables_agree s1"
proof -
  have k: "\<And>h. tables_agree (s\<lparr>host := h\<rparr>)"
    using assms(2) by (rule host_update_agree)
  have n: "\<And>h. open_paths_m (s\<lparr>host := h\<rparr>) p = None"
    using assms(3) by simp
  show ?thesis
    using assms(1) k
    by (auto simp: create_def Let_def split: sum.splits if_splits
        dest: insert_open_file_agree[OF _ k n])
qed

lemma open_agree:
  assumes "open H s p info = Some (r, i, s1)" "tables_agree s"
  shows "tables_agree s1"
proof (cases "open_paths_m s p")
  case (Some fdn)
  then obtain d where d: "open_fds_m s fdn = Some d"
    and s1: "s1 = s\<lparr>open_fds_m := (open_fds_m s)(fdn \<mapsto> d\<lparr>references := references d + 1\<rparr>)\<rparr>"
    using assms(1) by (auto simp: open_def split: option.splits)
  show ?thesis
    by (rule tables_agree_update[OF assms(2) d, where d' = "d\<lparr>references := references d + 1\<rparr>"])
       (simp_all add: s1)
next
  case None
  have k: "\<And>h. tables_agree (s\<lparr>host := h\<rparr>)"
    using assms(2) by (rule host_update_agree)
  have n: "\<And>h. open_paths_m (s\<lparr>host := h\<rparr>) p = None"
    using None by simp
  show ?thesis
    using assms(1) None k
    by (auto simp: open_def open_finish_def Let_def split: sum.splits if_splits
        dest: insert_open_file_agree[OF _ k n])
qed

lemma read_shape:
  assumes "read H s sz off fh = Some (r, b, s1)"
  shows "open_paths_m s1 = open_paths_m s \<and> next_m s1 = next_m s \<and>
         (open_fds_m s1 = open_fds_m s \<or>
          (\<exists>d d'. open_fds_m s fh = Some d \<and> open_fds_m s1 = (open_fds_m s)(fh \<mapsto> d') \<and>
                   path d' = path d))"
proof (cases "open_fds_m s fh")
  case None
  then show ?thesis using assms by (simp add: read_def)
next
  case (Some d)
  show ?thesis
  proof (cases "off < 0 \<or> \<not> read_m s")
    case True
    then have "s1 = s"
      using assms Some by (auto simp: read_def Let_def split: if_splits)
    then show ?thesis by simp
  next
    case False
    then obtain ret d1 h1 where l: "load_buffer H d (host s) = Some (ret, d1, h1)"
      and s1: "s1 = s\<lparr>open_fds_m := (open_fds_m s)(fh \<mapsto> d1), host := h1\<rparr>"
      using assms Some by (auto simp: read_def Let_def split: if_splits option.splits)
    have "\<exists>d d'. open_fds_m s fh = Some d \<and> open_fds_m s1 = (open_fds_m s)(fh \<mapsto> d') \<and>
        path d' = path d"
      using Some load_buffer_path[OF l] by (intro exI[of _ d] exI[of _ d1]) (simp add: s1)
    then show ?thesis by (simp add: s1)
  qed
qed

lemma write_shape:
  assumes "write H s buf off fh = Some (r, s1)"
  shows "open_paths_m s1 = open_paths_m s \<and> next_m s1 = next_m s \<and>
         (open_fds_m s1 = open_fds_m s \<or>
          (\<exists>d d'. open_fds_m s fh = Some d \<and> open_fds_m s1 = (open_fds_m s)(fh \<mapsto> d') \<and>
                   path d' = path d))"
proof (cases "open_fds_m s fh")
  case None
  then show ?thesis using assms by (simp add: write_def)
next
  case (Some d)
  show ?thesis
    using assms Some
    by (auto simp: write_def Let_def split: if_splits option.splits)
qed

lemma truncatefd_shape:
  assumes "truncatefd H s fh off = Some (r, s1)"
  shows "open_paths_m s1 = open_paths_m s \<and> next_m s1 = next_m s \<and>
         (open_fds_m s1 = open_fds_m s \<or>
          (\<exists>d d'. open_fds_m s fh = Some d \<and> open_fds_m s1 = (open_fds_m s)(fh \<mapsto> d') \<and>
                   path d' = path d))"
proof (cases "open_fds_m s fh")
  case None
  then show ?thesis using assms by (simp add: truncatefd_def)
next
  case (Some d)
  consider "off < 0" | "off = 0" | "0 < off" "read_m s" | "0 < off" "\<not> read_m s"
    by linarith
  then show ?thesis
  proof cases
    case 1
    then have "s1 = s" using assms Some by (simp add: truncatefd_def)
    then show ?thesis by simp
  next
    case 2
    then show ?thesis
      using assms Some by (auto simp: truncatefd_def Let_def split: sum.splits)
  next
    case 3
    then obtain ret d1 h1 where l: "load_buffer H d (host s) = Some (ret, d1, h1)"
      using assms Some by (auto simp: truncatefd_def split: option.splits)
    show ?thesis
      using assms Some 3 l load_buffer_path[OF l]
      by (auto simp: truncatefd_def split: if_splits option.splits)
  next
    case 4
    then have "s1 = s" using assms Some by (simp add: truncatefd_def)
    then show ?thesis by simp
  qed
qed

lemma truncate_agree:
  assumes "truncate H u s p off = Some (r, s1)" "tables_agree s"
  shows "tables_agree s1"
proof (cases "off < 0")
  case True
  then have "s1 = s" using assms(1) by (simp add: truncate_def)
  then show ?thesis using assms(2) by simp
next
  case nn: False
  show ?thesis
  proof (cases "open_paths_m s p")
    case (Some fdn)
    then have w: "truncatefd H s fdn off = Some (r, s1)"
      using assms(1) nn by (simp add: truncate_def)
    show ?thesis by (rule tables_agree_shape[OF assms(2) truncatefd_shape[OF w]])
  next
    case None
    have "open_paths_m s1 = open_paths_m s \<and> open_fds_m s1 = open_fds_m s \<and> next_m s1 = next_m s"
      using assms(1) nn None
      by (auto simp: truncate_def Let_def split: if_splits sum.splits option.splits)
    then show ?thesis using tables_agree_same[OF assms(2)] by blast
  qed
qed

lemma rename_agree:
  assumes "rename H s a b = Some (r, s1)" "tables_agree s"
    and "open_paths_m s a = None \<or> open_paths_m s b = None"
  shows "tables_agree s1"
proof (cases "fst (h_rename H (host s) (relpath a) (relpath b))")
  case (Inl e)
  then have "open_paths_m s1 = open_paths_m s \<and> open_fds_m s1 = open_fds_m s \<and> next_m s1 = next_m s"
    using assms(1) by (auto simp: rename_def Let_def)
  then show ?thesis using tables_agree_same[OF assms(2)] by blast
next
  case (Inr x)
  show ?thesis
  proof (cases "open_paths_m s a")
    case None
    then have "open_paths_m s1 = open_paths_m s \<and> open_fds_m s1 = open_fds_m s \<and> next_m s1 = next_m s"
      using assms(1) Inr by (auto simp: rename_def Let_def)
    then show ?thesis using tables_agree_same[OF assms(2)] by blast
  next
    case (Some fdn)
    then have nb: "open_paths_m s b = None" using assms(3) by simp
    from Some obtain d where d: "open_fds_m s fdn = Some d"
      and p1: "open_paths_m s1 = (map_insert (open_paths_m s) b fdn)(a := None)"
      and f1: "open_fds_m s1 = (open_fds_m s)(fdn \<mapsto> d\<lparr>path := b\<rparr>)"
      and n1: "next_m s1 = next_m s"
      using assms(1) Inr by (auto simp: rename_def Let_def split: option.splits)
    show ?thesis by (rule tables_agree_rename[OF assms(2) Some d nb p1 f1 n1])
  qed
qed

lemma release_agree:
  assumes "release H s info = Some (r, s1)" "tables_agree s"
  shows "tables_agree s1"
proof (cases "open_fds_m s (info_fh info)")
  case None
  then show ?thesis using assms by (simp add: release_def)
next
  case (Some d)
  show ?thesis
  proof (cases "references d - 1 = 0")
    case True
    then have "open_paths_m s1 = (open_paths_m s)(path d := None) \<and>
        open_fds_m s1 = (open_fds_m s)(info_fh info := None) \<and> next_m s1 = next_m s"
      using assms(1) Some by (auto simp: release_def Let_def split: option.splits)
    then show ?thesis using tables_agree_remove[OF assms(2) Some] by blast
  next
    case False
    then have "s1 = s\<lparr>open_fds_m := (open_fds_m s)(info_fh info \<mapsto> d\<lparr>references := references d - 1\<rparr>)\<rparr>"
      using assms(1) Some by (auto simp: release_def Let_def)
    then show ?thesis
      using tables_agree_update[OF assms(2) Some, where d' = "d\<lparr>references := references d - 1\<rparr>" and ?s1.0 = s1]
      by simp
  qed
qed

lemma statfd_shape:
  assumes "statfd H s fh bn = Some (r, st, s1)"
  shows "open_paths_m s1 = open_paths_m s \<and> next_m s1 = next_m s \<and>
         (open_fds_m s1 = open_fds_m s \<or>
          (\<exists>d d'. open_fds_m s fh = Some d \<and> open_fds_m s1 = (open_fds_m s)(fh \<mapsto> d') \<and>
                   path d' = path d))"
proof -
  have "s1 = s \<or> (\<exists>d ret d1 h1. open_fds_m s fh = Some d \<and>
      (if read_m s then load_buffer H d (host s) else Some (0, d, host s)) = Some (ret, d1, h1) \<and>
      s1 = s\<lparr>open_fds_m := (open_fds_m s)(fh \<mapsto> d1), host := h1\<rparr>)"
    using assms
    by (auto simp: statfd_def Let_def split: if_splits sum.splits option.splits)
  then show ?thesis
  proof
    assume "s1 = s" then show ?thesis by simp
  next
    assume "\<exists>d ret d1 h1. open_fds_m s fh = Some d \<and>
      (if read_m s then load_buffer H d (host s) else Some (0, d, host s)) = Some (ret, d1, h1) \<and>
      s1 = s\<lparr>open_fds_m := (open_fds_m s)(fh \<mapsto> d1), host := h1\<rparr>"
    then obtain d ret d1 h1 where d: "open_fds_m s fh = Some d"
      and l: "(if read_m s then load_buffer H d (host s) else Some (0, d, host s)) = Some (ret, d1, h1)"
      and s1: "s1 = s\<lparr>open_fds_m := (open_fds_m s)(fh \<mapsto> d1), host := h1\<rparr>" by blast
    have "path d1 = path d"
      using l load_buffer_path[of H d "host s" ret d1 h1] by (cases "read_m s") auto
    then have "\<exists>d d'. open_fds_m s fh = Some d \<and> open_fds_m s1 = (open_fds_m s)(fh \<mapsto> d') \<and>
        path d' = path d"
      using d by (intro exI[of _ d] exI[of _ d1]) (simp add: s1)
    then show ?thesis by (simp add: s1)
  qed
qed

lemma access_agree: "access H s p mode = Some (r, s1) \<Longrightarrow> tables_agree s \<Longrightarrow> tables_agree s1"
  by (auto simp: access_def Let_def split: sum.splits)

lemma step_agree:
  assumes "step H s x = Some (r, out, s1)" "tables_agree s" "on_free_path s x"
  shows "tables_agree s1"
proof (cases x)
  case (Op_create p mode info)
  then obtain i where c: "create H s p mode info = Some (r, i, s1)"
    using assms(1) by auto
  have n: "open_paths_m s p = None" using assms(3) Op_create by simp
  show ?thesis by (rule create_agree[OF c assms(2) n])
next
  case (Op_open p info)
  then obtain i where "open H s p info = Some (r, i, s1)"
    using assms(1) by auto
  then show ?thesis using assms(2) by (rule open_agree)
next
  case (Op_read sz off fh)
  then obtain b where w: "read H s sz off fh = Some (r, b, s1)"
    using assms(1) by auto
  show ?thesis by (rule tables_agree_shape[OF assms(2) read_shape[OF w]])
next
  case (Op_write buf off fh)
  then have w: "write H s buf off fh = Some (r, s1)"
    using assms(1) by (auto simp: with_out_def)
  show ?thesis by (rule tables_agree_shape[OF assms(2) write_shape[OF w]])
next
  case (Op_truncate u p off)
  then have w: "truncate H u s p off = Some (r, s1)"
    using assms(1) by (auto simp: with_out_def)
  show ?thesis by (rule truncate_agree[OF w assms(2)])
next
  case (Op_ftruncate off info)
  then have w: "truncatefd H s (info_fh info) off = Some (r, s1)"
    using assms(1) by (auto simp: with_out_def ftruncate_def)
  show ?thesis by (rule tables_agree_shape[OF assms(2) truncatefd_shape[OF w]])
next
  case (Op_rename a b)
  then have w: "rename H s a b = Some (r, s1)"
    using assms(1) by (auto simp: with_out_def)
  have n: "open_paths_m s a = None \<or> open_paths_m s b = None"
    using assms(3) Op_rename by simp
  show ?thesis by (rule rename_agree[OF w assms(2) n])
next
  case (Op_release info)
  then have "release H s info = Some (r, s1)"
    using assms(1) by (auto simp: with_out_def)
  then show ?thesis using assms(2) by (rule release_agree)
next
  case (Op_fgetattr bn info)
  then obtain st where w: "statfd H s (info_fh info) bn = Some (r, st, s1)"
    using assms(1) by (auto simp: fgetattr_def)
  show ?thesis by (rule tables_agree_shape[OF assms(2) statfd_shape[OF w]])
next
  case (Op_access p mode)
  then have "access H s p mode = Some (r, s1)"
    using assms(1) by (auto simp: with_out_def)
  then show ?thesis using assms(2) by (rule access_agree)
qed

lemma run_agree:
  "tables_agree s \<Longrightarrow> run_on_free_paths H s ops \<Longrightarrow> run H s ops = Some (rs, s1) \<Longrightarrow>
     tables_agree s1"
proof (induction ops arbitrary: s rs)
  case Nil
  then show ?case by simp
next
  case (Cons x xs)
  from Cons.prems(3) obtain r out s2 rs2 where st: "step H s x = Some (r, out, s2)"
    and rn: "run H s2 xs = Some (rs2, s1)"
    by (auto split: option.splits)
  have k: "tables_agree s2"
    using step_agree[OF st Cons.prems(1)] Cons.prems(2) by simp
  have o: "run_on_free_paths H s2 xs" using Cons.prems(2) st by simp
  show ?case by (rule Cons.IH[OF k o rn])
qed

lemma open_write_read:
  assumes p: "open_paths_m s p = Some fh" and f: "open_fds_m s fh = Some d"
    and o: "open H s p info = Some (0, info\<lparr>info_fh := fh\<rparr>, s1)"
    and b: "buf \<noteq> []" "0 \<le> off" "nat off + length buf < SIZE_RANGE"
      "nat off + length buf \<le> length (buffer d) \<or> h_resize_ok H (host s) (nat off + length buf)"
  shows "\<exists>d2 s2. write H s1 buf off fh = Some (to_int (length buf), s2) \<and>
            open_fds_m s2 (info_fh (info\<lparr>info_fh := fh\<rparr>)) = Some d2 \<and>
            take (length buf) (drop (nat off) (buffer d2)) = buf \<and>
            (buffer_set d \<and> length buf < INT_MAX \<and> (\<not> read_m s \<or> off = 0) \<longrightarrow>
               read H s2 (length buf) off (info_fh (info\<lparr>info_fh := fh\<rparr>))
                 = Some (int (length buf), buf, s2))"
proof -
  define d1 where "d1 = d\<lparr>references := references d + 1\<rparr>"
  have s1: "s1 = s\<lparr>open_fds_m := (open_fds_m s)(fh \<mapsto> d1)\<rparr>"
    using open_existing[OF p f, of H info] o by (simp add: d1_def)
  have f1: "open_fds_m s1 fh = Some d1" by (simp add: s1)
  define B where
    "B = memcpy_at (resize (max (length (buffer d1)) (nat off + length buf)) (buffer d1))
           (nat off) buf"
  define d2 where "d2 = d1\<lparr>buffer := B, dirty := True\<rparr>"
  define s2 where "s2 = s1\<lparr>open_fds_m := (open_fds_m s1)(fh \<mapsto> d2)\<rparr>"
  have g: "nat off + length buf \<le> length (buffer d1) \<or>
      h_resize_ok H (host s1) (nat off + length buf)"
    using b(4) by (simp add: d1_def s1)
  have w1: "write H s1 buf off fh = Some (to_int (length buf), s2)"
    using write_known_handle[OF f1 b(1,2,3) g] by (simp add: s2_def d2_def B_def)
  have f2: "open_fds_m s2 fh = Some d2" by (simp add: s2_def)
  have tk: "take (length buf) (drop (nat off) (buffer d2)) = buf"
    by (simp add: d2_def B_def written_bytes)
  have len: "length (buffer d2) = max (length (buffer d1)) (nat off + length buf)"
    by (simp add: d2_def B_def written_length)
  have r: "buffer_set d \<and> length buf < INT_MAX \<and> (\<not> read_m s \<or> off = 0) \<longrightarrow>
             read H s2 (length buf) off fh = Some (int (length buf), buf, s2)"
  proof
    assume k: "buffer_set d \<and> length buf < INT_MAX \<and> (\<not> read_m s \<or> off = 0)"
    have bs: "buffer_set d2" using k by (simp add: d2_def d1_def)
    have fit: "nat off + length buf \<le> length (buffer d2)" using len by simp
    have rm: "read_m s2 = read_m s" by (simp add: s2_def s1)
    show "read H s2 (length buf) off fh = Some (int (length buf), buf, s2)"
    proof (cases "read_m s")
      case False
      then have "read H s2 (length buf) off fh
          = Some (int (length buf), take (length buf) (drop (nat off) (buffer d2)), s2)"
        using read_write_only_known[OF f2 _ bs _ fit, of H] b k rm by simp
      then show ?thesis by (simp add: tk)
    next
      case True
      then have z: "off = 0" using k by simp
      have "0 < length buf" using b by simp
      then have "read H s2 (length buf) off fh
          = Some (int (length buf), take (length buf) (buffer d2), s2)"
        using read_read_mode_known[OF f2 _ bs _ fit, of H] b k rm True by simp
      moreover have "take (length buf) (buffer d2) = buf" using tk z by simp
      ultimately show ?thesis by simp
    qed
  qed
  show ?thesis
    using w1 f2 tk r by auto
qed

text \<open>
  Claim C3, as stated, fails in both parts. In read/write mode on an empty directory,
  \<^verbatim>\<open>create\<close> called twice on \<^verbatim>\<open>/a\<close> succeeds twice and hands out the ids 0 and 1, each with
  a state of its own for the path \<^verbatim>\<open>/a\<close>: after a \<^verbatim>\<open>write\<close> of \<^verbatim>\<open>"hi"\<close> through the handle 0,
  the \<^verbatim>\<open>read\<close> through the handle 1 returns no byte. And in write-only mode, on a backing
  file that exists and is not empty, a first handle opens \<^verbatim>\<open>/x\<close> with
  \<^verbatim>\<open>O_WRONLY | O_APPEND\<close>, a second one with \<^verbatim>\<open>O_RDONLY\<close> gets the same id, the first writes
  \<^verbatim>\<open>"hi"\<close>, and the read through the second returns \<open>-EACCES\<close>.
\<close>

theorem two_states_counterexample:
  "paths_after_run toy (mount True toy_empty)
     [Op_create ''/a'' 384 \<lparr>info_flags = O_RDWR, info_fh = 0\<rparr>,
      Op_create ''/a'' 384 \<lparr>info_flags = O_RDWR, info_fh = 0\<rparr>,
      Op_write ''hi'' 0 0,
      Op_read 2 0 1] [0, 1]
   = Some ([(0, Out_info \<lparr>info_flags = 66, info_fh = 0\<rparr>),
            (0, Out_info \<lparr>info_flags = 66, info_fh = 1\<rparr>),
            (2, Out_none),
            (0, Out_bytes [])],
           [Some ''/a'', Some ''/a'']) \<and>
   map_option fst
     (run toy (mount False toy_with_x)
        [Op_open ''/x'' \<lparr>info_flags = O_WRONLY OR O_APPEND, info_fh = 0\<rparr>,
         Op_open ''/x'' \<lparr>info_flags = O_RDONLY, info_fh = 0\<rparr>,
         Op_write ''hi'' 0 0,
         Op_read 2 0 0])
   = Some [(0, Out_info \<lparr>info_flags = 1025, info_fh = 0\<rparr>),
           (0, Out_info \<lparr>info_flags = 0, info_fh = 0\<rparr>),
           (2, Out_none),
           (- EACCES, Out_bytes [])]"
  by (simp add: paths_after_run_def toy_defs const_defs op_defs load_buffer_def terminator_def
      Let_def)

text \<open>
  Claim C3, amended. The two tables agree in the state the constructor builds. In every
  run of callbacks (\<^verbatim>\<open>create\<close>, \<^verbatim>\<open>open\<close>, \<^verbatim>\<open>read\<close>, \<^verbatim>\<open>write\<close>, \<^verbatim>\<open>truncate\<close>, \<^verbatim>\<open>ftruncate\<close>,
  \<^verbatim>\<open>rename\<close>, \<^verbatim>\<open>release\<close>, \<^verbatim>\<open>fgetattr\<close>, \<^verbatim>\<open>access\<close>) that starts in a state where they
  agree, and in which \<^verbatim>\<open>create\<close> is never called on a path that has an entry and \<^verbatim>\<open>rename\<close>
  never with an old and a new path that both have one, they agree at the end, and no two
  handle ids have states for the same path. Then, for each path with an entry: every
  \<^verbatim>\<open>open\<close> of it returns 0 and the id of the entry, adds one to the reference count of
  that state and changes nothing else (the new flags are not looked at, the host is not
  called); after such an \<^verbatim>\<open>open\<close>, a \<^verbatim>\<open>write\<close> of bytes through that id, at an offset
  \<open>\<ge> 0\<close> with \<open>offset + size\<close> in the range of \<^verbatim>\<open>size_t\<close> and a buffer that already has
  that length or can grow to it, returns \<^verbatim>\<open>static_cast<int>(size)\<close> and leaves the bytes in
  the buffer of that state at the offset; and when the buffer of the state was known
  (\<open>buffer_set\<close>) and \<open>size < INT_MAX\<close>, a \<^verbatim>\<open>read\<close> of that range through the id that the
  \<^verbatim>\<open>open\<close> returned returns \<open>size\<close> and the written bytes, in write-only mode at every
  such offset and in read/write mode at offset 0.
\<close>

theorem shared_state_on_free_paths:
  "tables_agree (asymmetricfs_init h0) \<and>
   (tables_agree s \<and> run_on_free_paths H s ops \<and> run H s ops = Some (rs, s1) \<longrightarrow>
      tables_agree s1 \<and> one_state_per_path s1 \<and>
      (\<forall>p fh. open_paths_m s1 p = Some fh \<longrightarrow>
         (\<exists>d. open_fds_m s1 fh = Some d \<and> path d = p \<and>
            (\<forall>info. open H s1 p info
                 = Some (0, info\<lparr>info_fh := fh\<rparr>,
                         s1\<lparr>open_fds_m :=
                              (open_fds_m s1)(fh \<mapsto> d\<lparr>references := references d + 1\<rparr>)\<rparr>)) \<and>
            (\<forall>info buf off s2.
               open H s1 p info = Some (0, info\<lparr>info_fh := fh\<rparr>, s2) \<and> buf \<noteq> [] \<and> 0 \<le> off \<and>
               nat off + length buf < SIZE_RANGE \<and>
               (nat off + length buf \<le> length (buffer d) \<or>
                h_resize_ok H (host s1) (nat off + length buf)) \<longrightarrow>
               (\<exists>d3 s3. write H s2 buf off fh = Some (to_int (length buf), s3) \<and>
                   open_fds_m s3 (info_fh (info\<lparr>info_fh := fh\<rparr>)) = Some d3 \<and>
                   take (length buf) (drop (nat off) (buffer d3)) = buf \<and>
                   (buffer_set d \<and> length buf < INT_MAX \<and> (\<not> read_m s1 \<or> off = 0) \<longrightarrow>
                      read H s3 (length buf) off (info_fh (info\<lparr>info_fh := fh\<rparr>))
                        = Some (int (length buf), buf, s3)))))))"
proof (intro conjI impI)
  show "tables_agree (asymmetricfs_init h0)"
    by (simp add: tables_agree_def asymmetricfs_init_def)
next
  assume a: "tables_agree s \<and> run_on_free_paths H s ops \<and> run H s ops = Some (rs, s1)"
  then show t: "tables_agree s1"
    using run_agree[of s H ops rs s1] by blast
  then show "one_state_per_path s1" by (rule tables_agree_one_state)
  show "\<forall>p fh. open_paths_m s1 p = Some fh \<longrightarrow>
         (\<exists>d. open_fds_m s1 fh = Some d \<and> path d = p \<and>
            (\<forall>info. open H s1 p info
                 = Some (0, info\<lparr>info_fh := fh\<rparr>,
                         s1\<lparr>open_fds_m :=
                              (open_fds_m s1)(fh \<mapsto> d\<lparr>references := references d + 1\<rparr>)\<rparr>)) \<and>
            (\<forall>info buf off s2.
               open H s1 p info = Some (0, info\<lparr>info_fh := fh\<rparr>, s2) \<and> buf \<noteq> [] \<and> 0 \<le> off \<and>
               nat off + length buf < SIZE_RANGE \<and>
               (nat off + length buf \<le> length (buffer d) \<or>
                h_resize_ok H (host s1) (nat off + length buf)) \<longrightarrow>
               (\<exists>d3 s3. write H s2 buf off fh = Some (to_int (length buf), s3) \<and>
                   open_fds_m s3 (info_fh (info\<lparr>info_fh := fh\<rparr>)) = Some d3 \<and>
                   take (length buf) (drop (nat off) (buffer d3)) = buf \<and>
                   (buffer_set d \<and> length buf < INT_MAX \<and> (\<not> read_m s1 \<or> off = 0) \<longrightarrow>
                      read H s3 (length buf) off (info_fh (info\<lparr>info_fh := fh\<rparr>))
                        = Some (int (length buf), buf, s3)))))"
  proof (intro allI impI)
    fix p fh
    assume p: "open_paths_m s1 p = Some fh"
    from tables_agreeD1[OF t p] obtain d where d: "open_fds_m s1 fh = Some d" "path d = p"
      by blast
    have o: "\<forall>info. open H s1 p info
                 = Some (0, info\<lparr>info_fh := fh\<rparr>,
                         s1\<lparr>open_fds_m :=
                              (open_fds_m s1)(fh \<mapsto> d\<lparr>references := references d + 1\<rparr>)\<rparr>)"
      using open_existing[OF p d(1)] by blast
    have w: "\<forall>info buf off s2.
               open H s1 p info = Some (0, info\<lparr>info_fh := fh\<rparr>, s2) \<and> buf \<noteq> [] \<and> 0 \<le> off \<and>
               nat off + length buf < SIZE_RANGE \<and>
               (nat off + length buf \<le> length (buffer d) \<or>
                h_resize_ok H (host s1) (nat off + length buf)) \<longrightarrow>
               (\<exists>d3 s3. write H s2 buf off fh = Some (to_int (length buf), s3) \<and>
                   open_fds_m s3 (info_fh (info\<lparr>info_fh := fh\<rparr>)) = Some d3 \<and>
                   take (length buf) (drop (nat off) (buffer d3)) = buf \<and>
                   (buffer_set d \<and> length buf < INT_MAX \<and> (\<not> read_m s1 \<or> off = 0) \<longrightarrow>
                      read H s3 (length buf) off (info_fh (info\<lparr>info_fh := fh\<rparr>))
                        = Some (int (length buf), buf, s3)))"
      using open_write_read[OF p d(1)] by blast
    show "\<exists>d. open_fds_m s1 fh = Some d \<and> path d = p \<and>
            (\<forall>info. open H s1 p info
                 = Some (0, info\<lparr>info_fh := fh\<rparr>,
                         s1\<lparr>open_fds_m :=
                              (open_fds_m s1)(fh \<mapsto> d\<lparr>references := references d + 1\<rparr>)\<rparr>)) \<and>
            (\<forall>info buf off s2.
               open H s1 p info = Some (0, info\<lparr>info_fh := fh\<rparr>, s2) \<and> buf \<noteq> [] \<and> 0 \<le> off \<and>
               nat off + length buf < SIZE_RANGE \<and>
               (nat off + length buf \<le> length (buffer d) \<or>
                h_resize_ok H (host s1) (nat off + length buf)) \<longrightarrow>
               (\<exists>d3 s3. write H s2 buf off fh = Some (to_int (length buf), s3) \<and>
                   open_fds_m s3 (info_fh (info\<lparr>info_fh := fh\<rparr>)) = Some d3 \<and>
                   take (length buf) (drop (nat off) (buffer d3)) = buf \<and>
                   (buffer_set d \<and> length buf < INT_MAX \<and> (\<not> read_m s1 \<or> off = 0) \<longrightarrow>
                      read H s3 (length buf) off (info_fh (info\<lparr>info_fh := fh\<rparr>))
                        = Some (int (length buf), buf, s3))))"
      using d o w by (intro exI[of _ d] conjI)
  qed
qed

theorem shared_state_on_free_paths_witness:
  "tables_agree (mount True toy_empty) \<and>
   run_on_free_paths toy (mount True toy_empty)
     [Op_create ''/a'' 384 \<lparr>info_flags = O_RDWR, info_fh = 5\<rparr>,
      Op_open ''/a'' \<lparr>info_flags = O_RDONLY, info_fh = 9\<rparr>,
      Op_write ''hi'' 0 0,
      Op_rename ''/a'' ''/b'',
      Op_create ''/a'' 384 \<lparr>info_flags = O_WRONLY, info_fh = 5\<rparr>,
      Op_release \<lparr>info_flags = 0, info_fh = 0\<rparr>] \<and>
   (\<exists>rs s1 s2 s3.
      run toy (mount True toy_empty)
        [Op_create ''/a'' 384 \<lparr>info_flags = O_RDWR, info_fh = 5\<rparr>,
         Op_open ''/a'' \<lparr>info_flags = O_RDONLY, info_fh = 9\<rparr>,
         Op_write ''hi'' 0 0,
         Op_rename ''/a'' ''/b'',
         Op_create ''/a'' 384 \<lparr>info_flags = O_WRONLY, info_fh = 5\<rparr>,
         Op_release \<lparr>info_flags = 0, info_fh = 0\<rparr>] = Some (rs, s1) \<and>
      map fst rs = [0, 0, 2, 0, 0, 0] \<and>
      tables_agree s1 \<and> one_state_per_path s1 \<and> open_paths_m s1 ''/b'' = Some 0 \<and>
      open toy s1 ''/b'' \<lparr>info_flags = O_RDONLY, info_fh = 9\<rparr>
        = Some (0, \<lparr>info_flags = O_RDONLY, info_fh = 0\<rparr>, s2) \<and>
      write toy s2 ''XY'' 0 0 = Some (2, s3) \<and>
      read toy s3 2 0 0 = Some (2, ''XY'', s3))"
proof -
  let ?s = "mount True toy_empty"
  let ?ops = "[Op_create ''/a'' 384 \<lparr>info_flags = O_RDWR, info_fh = 5\<rparr>,
      Op_open ''/a'' \<lparr>info_flags = O_RDONLY, info_fh = 9\<rparr>,
      Op_write ''hi'' 0 0,
      Op_rename ''/a'' ''/b'',
      Op_create ''/a'' 384 \<lparr>info_flags = O_WRONLY, info_fh = 5\<rparr>,
      Op_release \<lparr>info_flags = 0, info_fh = 0\<rparr>]"
  let ?info = "\<lparr>info_flags = O_RDONLY, info_fh = 9\<rparr>"
  have i: "tables_agree ?s"
    by (simp add: tables_agree_def mount_def set_read_def asymmetricfs_init_def)
  have k: "run_on_free_paths toy ?s ?ops"
    by (simp add: toy_defs const_defs op_defs load_buffer_def Let_def)
  have "\<exists>rs s1. run toy ?s ?ops = Some (rs, s1) \<and> map fst rs = [0, 0, 2, 0, 0, 0] \<and>
      open_paths_m s1 ''/b'' = Some 0 \<and> map_option buffer_set (open_fds_m s1 0) = Some True"
    by (simp add: toy_defs const_defs op_defs load_buffer_def Let_def)
  then obtain rs s1 where r: "run toy ?s ?ops = Some (rs, s1)"
    and v: "map fst rs = [0, 0, 2, 0, 0, 0]"
    and pb: "open_paths_m s1 ''/b'' = Some 0"
    and bs: "map_option buffer_set (open_fds_m s1 0) = Some True" by (elim exE conjE)
  note th = shared_state_on_free_paths [of toy_empty ?s toy ?ops rs s1, THEN conjunct2,
      rule_format, OF conjI[OF i conjI[OF k r]]]
  have t: "tables_agree s1" by (rule th[THEN conjunct1])
  have u: "one_state_per_path s1" by (rule th[THEN conjunct2, THEN conjunct1])
  from th[THEN conjunct2, THEN conjunct2, rule_format, OF pb]
  obtain d where d: "open_fds_m s1 0 = Some d"
    and o: "\<forall>info. open toy s1 ''/b'' info
                 = Some (0, info\<lparr>info_fh := 0\<rparr>,
                         s1\<lparr>open_fds_m :=
                              (open_fds_m s1)(0 \<mapsto> d\<lparr>references := references d + 1\<rparr>)\<rparr>)"
    and w: "\<forall>info buf off s2.
               open toy s1 ''/b'' info = Some (0, info\<lparr>info_fh := 0\<rparr>, s2) \<and> buf \<noteq> [] \<and> 0 \<le> off \<and>
               nat off + length buf < SIZE_RANGE \<and>
               (nat off + length buf \<le> length (buffer d) \<or>
                h_resize_ok toy (host s1) (nat off + length buf)) \<longrightarrow>
               (\<exists>d3 s3. write toy s2 buf off 0 = Some (to_int (length buf), s3) \<and>
                   open_fds_m s3 (info_fh (info\<lparr>info_fh := 0\<rparr>)) = Some d3 \<and>
                   take (length buf) (drop (nat off) (buffer d3)) = buf \<and>
                   (buffer_set d \<and> length buf < INT_MAX \<and> (\<not> read_m s1 \<or> off = 0) \<longrightarrow>
                      read toy s3 (length buf) off (info_fh (info\<lparr>info_fh := 0\<rparr>))
                        = Some (int (length buf), buf, s3)))"
    by (elim exE conjE)
  define s2 where
    "s2 = s1\<lparr>open_fds_m := (open_fds_m s1)(0 \<mapsto> d\<lparr>references := references d + 1\<rparr>)\<rparr>"
  have o1: "open toy s1 ''/b'' ?info = Some (0, ?info\<lparr>info_fh := 0\<rparr>, s2)"
    using o by (simp add: s2_def)
  have c: "''XY'' \<noteq> [] \<and> (0::int) \<le> 0 \<and> nat 0 + length ''XY'' < SIZE_RANGE \<and>
      (nat 0 + length ''XY'' \<le> length (buffer d) \<or>
       h_resize_ok toy (host s1) (nat 0 + length ''XY''))"
    by (simp add: SIZE_RANGE_def toy_def toy_max_size_def)
  have b: "buffer_set d \<and> length ''XY'' < INT_MAX \<and> (\<not> read_m s1 \<or> (0::int) = 0)"
    using bs d by (simp add: INT_MAX_def)
  from w[rule_format, OF conjI[OF o1 c]]
  obtain d3 s3 where w1: "write toy s2 ''XY'' 0 0 = Some (to_int (length ''XY''), s3)"
    and r1: "buffer_set d \<and> length ''XY'' < INT_MAX \<and> (\<not> read_m s1 \<or> (0::int) = 0) \<longrightarrow>
        read toy s3 (length ''XY'') 0 (info_fh (?info\<lparr>info_fh := 0\<rparr>))
          = Some (int (length ''XY''), ''XY'', s3)"
    by (elim exE conjE)
  have w2: "write toy s2 ''XY'' 0 0 = Some (2, s3)"
    using w1 by (simp add: to_int_def)
  have r2: "read toy s3 2 0 0 = Some (2, ''XY'', s3)"
    using r1 b by (simp add: numeral_2_eq_2)
  have o2: "open toy s1 ''/b'' ?info = Some (0, \<lparr>info_flags = O_RDONLY, info_fh = 0\<rparr>, s2)"
    using o1 by simp
  show ?thesis
    using i k r v t u pb o2 w2 r2 by (intro conjI exI)
qed

subsection \<open>open in write-only mode with read access requested\<close>

text \<open>
  Claim C5, as stated, fails. In write-only mode, on a backing file \<^verbatim>\<open>./x\<close> that exists,
  \<^verbatim>\<open>open\<close> with \<^verbatim>\<open>O_RDONLY\<close> returns 0, and \<^verbatim>\<open>open\<close> with \<^verbatim>\<open>O_CREAT | O_RDWR\<close> returns the
  host's \<open>-EEXIST\<close>; neither is \<open>-EACCES\<close>.
\<close>

theorem open_existing_write_only_counterexample:
  "\<not> read_m (mount False toy_with_x) \<and> files toy_with_x ''./x'' \<noteq> None \<and>
   map_option fst (open toy (mount False toy_with_x) ''/x'' \<lparr>info_flags = O_RDONLY, info_fh = 0\<rparr>)
     = Some 0 \<and>
   map_option fst
     (open toy (mount False toy_with_x) ''/x'' \<lparr>info_flags = O_CREAT OR O_RDWR, info_fh = 0\<rparr>)
     = Some (- EEXIST) \<and>
   0 \<noteq> - EACCES \<and> - EEXIST \<noteq> - EACCES"
  by (simp add: toy_defs const_defs op_defs terminator_def Let_def)

text \<open>
  Claim C5, amended. In write-only mode, for an \<^verbatim>\<open>open\<close> with read access requested of a
  path that has no entry: with \<^verbatim>\<open>O_CREAT\<close> among the flags the host open is made with
  \<^verbatim>\<open>O_EXCL\<close> ORed in, and when it fails \<^verbatim>\<open>open\<close> returns the negated host \<^verbatim>\<open>errno\<close> and
  opens nothing; without \<^verbatim>\<open>O_CREAT\<close> the host open is made with the caller's flags,
  whenever it succeeds \<^verbatim>\<open>open\<close> returns 0 with the fresh handle id, and when it succeeds on
  a file that is not empty the state of that id has \<open>buffer_set\<close> false, so that every
  \<^verbatim>\<open>read\<close> on it at an offset \<open>\<ge> 0\<close> returns \<open>-EACCES\<close>.
\<close>

theorem open_write_only_reader:
  "\<not> read_m s \<Longrightarrow> open_paths_m s p = None \<Longrightarrow>
   info_flags info AND O_ACCMODE = O_RDONLY \<or> info_flags info AND O_ACCMODE = O_RDWR \<Longrightarrow>
   (info_flags info AND O_CREAT \<noteq> 0 \<longrightarrow>
      (\<forall>errno. fst (h_openat H (host s) (relpath p) (info_flags info OR O_EXCL) None) = Inl errno \<longrightarrow>
         open H s p info
           = Some (- errno, info,
                   s\<lparr>host := snd (h_openat H (host s) (relpath p) (info_flags info OR O_EXCL) None)\<rparr>))) \<and>
   (info_flags info AND O_CREAT = 0 \<longrightarrow>
      (\<forall>ret st. fst (h_openat H (host s) (relpath p) (info_flags info) None) = Inr ret \<and>
          h_fstat H (snd (h_openat H (host s) (relpath p) (info_flags info) None)) ret = Inr st \<and>
          st_size st \<noteq> 0 \<and> open_fds_m s (next_m s) = None \<longrightarrow>
          (\<exists>s1 d. open H s p info = Some (0, info\<lparr>info_fh := next_m s\<rparr>, s1) \<and>
             open_fds_m s1 (next_m s) = Some d \<and> \<not> buffer_set d \<and> flags d = info_flags info \<and>
             (\<forall>sz off. 0 \<le> off \<longrightarrow> read H s1 sz off (next_m s) = Some (- EACCES, [], s1))))) \<and>
   (info_flags info AND O_CREAT = 0 \<longrightarrow>
      (\<forall>ret. fst (h_openat H (host s) (relpath p) (info_flags info) None) = Inr ret \<longrightarrow>
         (\<exists>s1. open H s p info = Some (0, info\<lparr>info_fh := next_m s\<rparr>, s1))))"
proof (intro conjI impI allI)
  assume a: "\<not> read_m s" "open_paths_m s p = None"
    "info_flags info AND O_ACCMODE = O_RDONLY \<or> info_flags info AND O_ACCMODE = O_RDWR"
  { fix ret
    assume c: "info_flags info AND O_CREAT = 0"
      and e: "fst (h_openat H (host s) (relpath p) (info_flags info) None) = Inr ret"
    show "\<exists>s1. open H s p info = Some (0, info\<lparr>info_fh := next_m s\<rparr>, s1)"
      using a c e
      by (auto simp: open_def make_rdwr_def Let_def open_finish_def insert_open_file_def
          next_fd_def) }
  { fix errno
    assume c: "info_flags info AND O_CREAT \<noteq> 0"
      and e: "fst (h_openat H (host s) (relpath p) (info_flags info OR O_EXCL) None) = Inl errno"
    show "open H s p info
           = Some (- errno, info,
                   s\<lparr>host := snd (h_openat H (host s) (relpath p) (info_flags info OR O_EXCL) None)\<rparr>)"
      using a c e by (auto simp: open_def make_rdwr_def Let_def) }
  fix ret st
  assume c: "info_flags info AND O_CREAT = 0"
    and h: "fst (h_openat H (host s) (relpath p) (info_flags info) None) = Inr ret \<and>
          h_fstat H (snd (h_openat H (host s) (relpath p) (info_flags info) None)) ret = Inr st \<and>
          st_size st \<noteq> 0 \<and> open_fds_m s (next_m s) = None"
  define d where "d = \<lparr>fd = ret, flags = info_flags info, references = 1, path = p,
     buffer_set = False, dirty = False, buffer = [], open_m = True\<rparr>"
  define s1 where "s1 = s\<lparr>next_m := next_m s + 1,
      open_paths_m := (open_paths_m s)(p \<mapsto> next_m s),
      open_fds_m := (open_fds_m s)(next_m s \<mapsto> d),
      host := snd (h_openat H (host s) (relpath p) (info_flags info) None)\<rparr>"
  have o: "open H s p info = Some (0, info\<lparr>info_fh := next_m s\<rparr>, s1)"
    using a c h
    by (auto simp: open_def make_rdwr_def Let_def open_finish_def insert_open_file_def
        next_fd_def map_insert_def s1_def d_def)
  have f: "open_fds_m s1 (next_m s) = Some d" by (simp add: s1_def)
  have r: "\<forall>sz off. 0 \<le> off \<longrightarrow> read H s1 sz off (next_m s) = Some (- EACCES, [], s1)"
    using a c f by (simp add: read_def s1_def d_def)
  show "\<exists>s1 d. open H s p info = Some (0, info\<lparr>info_fh := next_m s\<rparr>, s1) \<and>
             open_fds_m s1 (next_m s) = Some d \<and> \<not> buffer_set d \<and> flags d = info_flags info \<and>
             (\<forall>sz off. 0 \<le> off \<longrightarrow> read H s1 sz off (next_m s) = Some (- EACCES, [], s1))"
    using o f r by (auto simp: d_def)
qed

theorem open_write_only_reader_witness:
  "\<not> read_m (mount False toy_with_x) \<and> open_paths_m (mount False toy_with_x) ''/x'' = None \<and>
   O_RDONLY AND O_ACCMODE = O_RDONLY \<and> (O_CREAT OR O_RDWR) AND O_ACCMODE = O_RDWR \<and>
   (O_CREAT OR O_RDWR) AND O_CREAT \<noteq> 0 \<and> O_RDONLY AND O_CREAT = 0 \<and>
   open toy (mount False toy_with_x) ''/x'' \<lparr>info_flags = O_CREAT OR O_RDWR, info_fh = 0\<rparr>
     = Some (- EEXIST, \<lparr>info_flags = O_CREAT OR O_RDWR, info_fh = 0\<rparr>, mount False toy_with_x) \<and>
   (\<exists>s1. open toy (mount False toy_with_x) ''/x'' \<lparr>info_flags = O_RDONLY, info_fh = 7\<rparr>
            = Some (0, \<lparr>info_flags = O_RDONLY, info_fh = 0\<rparr>, s1) \<and>
         read toy s1 10 0 0 = Some (- EACCES, [], s1))"
proof -
  let ?s = "mount False toy_with_x"
  have h: "\<not> read_m ?s" "open_paths_m ?s ''/x'' = None"
    by (simp_all add: mount_def set_read_def asymmetricfs_init_def)
  have m: "O_RDONLY AND O_ACCMODE = O_RDONLY" "(O_CREAT OR O_RDWR) AND O_ACCMODE = O_RDWR"
    "(O_CREAT OR O_RDWR) AND O_CREAT \<noteq> 0" "O_RDONLY AND O_CREAT = 0"
    by (simp_all add: const_defs)
  have e: "fst (h_openat toy (host ?s) (relpath ''/x'') ((O_CREAT OR O_RDWR) OR O_EXCL) None)
      = Inl EEXIST"
    "snd (h_openat toy (host ?s) (relpath ''/x'') ((O_CREAT OR O_RDWR) OR O_EXCL) None) = host ?s"
    by (simp_all add: toy_defs const_defs op_defs)
  have g: "fst (h_openat toy (host ?s) (relpath ''/x'') O_RDONLY None) = Inr 3 \<and>
      h_fstat toy (snd (h_openat toy (host ?s) (relpath ''/x'') O_RDONLY None)) 3
        = Inr \<lparr>st_size = 29, st_mode = 33152\<rparr> \<and>
      st_size \<lparr>st_size = 29, st_mode = 33152\<rparr> \<noteq> 0 \<and> open_fds_m ?s (next_m ?s) = None"
    by (simp add: toy_defs const_defs op_defs terminator_def)
  have n: "next_m ?s = 0" by (simp add: op_defs)
  from open_write_only_reader [OF h, of "\<lparr>info_flags = O_CREAT OR O_RDWR, info_fh = 0\<rparr>" toy]
  have 1: "open toy ?s ''/x'' \<lparr>info_flags = O_CREAT OR O_RDWR, info_fh = 0\<rparr>
     = Some (- EEXIST, \<lparr>info_flags = O_CREAT OR O_RDWR, info_fh = 0\<rparr>, ?s)"
    using m e by simp
  from open_write_only_reader [OF h, of "\<lparr>info_flags = O_RDONLY, info_fh = 7\<rparr>" toy]
  have 2: "\<exists>s1. open toy ?s ''/x'' \<lparr>info_flags = O_RDONLY, info_fh = 7\<rparr>
            = Some (0, \<lparr>info_flags = O_RDONLY, info_fh = 0\<rparr>, s1) \<and>
         read toy s1 10 0 0 = Some (- EACCES, [], s1)"
    using m g n by (simp add: O_RDONLY_def O_CREAT_def) fastforce
  show ?thesis using h m 1 2 by simp
qed

subsection \<open>truncate to offset 0, twice\<close>

text \<open>
  Claim C9. On a host where a second truncation to length 0 returns what the first one
  returned and changes nothing more, \<^verbatim>\<open>truncate(path, 0)\<close> called twice in succession
  returns the same value both times and ends in the state the first call ended in: the
  same tables, the same open-file states and the same host (hence the same backing
  file). This holds whether the path is open or not.
\<close>

theorem truncate_zero_idempotent:
  "truncate_zero_settles H (host s) (relpath p) \<Longrightarrow>
   (\<exists>r s1. truncate H u s p 0 = Some (r, s1) \<and> truncate H v s1 p 0 = Some (r, s1))"
proof -
  assume t: "truncate_zero_settles H (host s) (relpath p)"
  show ?thesis
  proof (cases "open_paths_m s p")
    case None
    define r where "r = h_truncate H (host s) (relpath p) 0"
    have again: "h_truncate H (snd r) (relpath p) 0 = r"
      using t by (simp add: truncate_zero_settles_def r_def)
    show ?thesis
      using None again
      by (cases "fst r") (simp_all add: truncate_def Let_def r_def[symmetric])
  next
    case (Some fdn)
    show ?thesis
    proof (cases "open_fds_m s fdn")
      case None
      then show ?thesis using Some by (simp add: truncate_def truncatefd_def)
    next
      case d: (Some d)
      define r where "r = h_ftruncate H (host s) (fd d) 0"
      have again: "h_ftruncate H (snd r) (fd d) 0 = r"
        using t by (simp add: truncate_zero_settles_def r_def)
      show ?thesis
        using Some d again
        by (cases "fst r")
           (simp_all add: truncate_def truncatefd_def Let_def r_def[symmetric] resize_zero)
    qed
  qed
qed

theorem truncate_zero_idempotent_witness:
  "truncate_zero_settles toy (host (demo_fs True)) (relpath ''/test'') \<and>
   truncate_zero_settles toy (host (mount False toy_with_x)) (relpath ''/x'') \<and>
   (\<exists>r s1. truncate toy False (demo_fs True) ''/test'' 0 = Some (r, s1) \<and>
            truncate toy True s1 ''/test'' 0 = Some (r, s1)) \<and>
   (\<exists>r s1. truncate toy False (mount False toy_with_x) ''/x'' 0 = Some (r, s1) \<and>
            truncate toy True s1 ''/x'' 0 = Some (r, s1))"
  using truncate_zero_idempotent [where H = toy and s = "demo_fs True" and p = "''/test''"
        and u = False and v = True]
    truncate_zero_idempotent [where H = toy and s = "mount False toy_with_x" and p = "''/x''"
        and u = False and v = True]
  by (simp add: toy_settles)

subsection \<open>Handle ids\<close>

lemma insert_open_file_id:
  "insert_open_file s p info ret fl bs = (r, i, s1) \<Longrightarrow>
     r = 0 \<and> info_fh i = next_m s \<and> next_m s1 = next_m s + 1"
  by (auto simp: insert_open_file_def next_fd_def Let_def)

lemma create_id:
  assumes "errno_nonzero H" "create H s p mode info = Some (r, i, s1)"
  shows "if r = 0 then info_fh i = next_m s \<and> next_m s1 = next_m s + 1 else next_m s1 = next_m s"
proof -
  have nz: "\<And>h q fl m e. fst (h_openat H h q fl m) = Inl e \<Longrightarrow> e \<noteq> 0"
    using assms(1) by (auto simp: errno_nonzero_def)
  show ?thesis
    using assms(2)
    by (auto simp: create_def Let_def split: sum.splits if_splits
        dest!: insert_open_file_id nz)
qed

lemma open_id:
  assumes "errno_nonzero H" "open H s p info = Some (r, i, s1)"
  shows "if r = 0 \<and> open_paths_m s p = None
         then info_fh i = next_m s \<and> next_m s1 = next_m s + 1 else next_m s1 = next_m s"
proof -
  have nz: "\<And>h q fl m e. fst (h_openat H h q fl m) = Inl e \<Longrightarrow> e \<noteq> 0"
    using assms(1) by (auto simp: errno_nonzero_def)
  show ?thesis
    using assms(2)
    by (auto simp: open_def open_finish_def Let_def split: sum.splits if_splits option.splits
        dest!: insert_open_file_id nz)
qed

lemma read_next: "read H s sz off fh = Some (r, b, s1) \<Longrightarrow> next_m s1 = next_m s"
  by (auto simp: read_def Let_def split: option.splits if_splits)

lemma write_next: "write H s buf off fh = Some (r, s1) \<Longrightarrow> next_m s1 = next_m s"
  by (auto simp: write_def Let_def split: option.splits if_splits)

lemma truncatefd_next: "truncatefd H s fdn off = Some (r, s1) \<Longrightarrow> next_m s1 = next_m s"
  by (auto simp: truncatefd_def Let_def split: option.splits if_splits sum.splits)

lemma truncate_next: "truncate H u s p off = Some (r, s1) \<Longrightarrow> next_m s1 = next_m s"
  by (auto simp: truncate_def Let_def split: option.splits if_splits sum.splits
      dest: truncatefd_next)

lemma rename_next: "rename H s a b = Some (r, s1) \<Longrightarrow> next_m s1 = next_m s"
  by (auto simp: rename_def Let_def split: option.splits if_splits sum.splits)

lemma release_next: "release H s info = Some (r, s1) \<Longrightarrow> next_m s1 = next_m s"
  by (auto simp: release_def Let_def split: option.splits if_splits)

lemma statfd_next: "statfd H s fdn bn = Some (r, st, s1) \<Longrightarrow> next_m s1 = next_m s"
  by (auto simp: statfd_def Let_def split: option.splits if_splits sum.splits)

lemma access_next: "access H s p mode = Some (r, s1) \<Longrightarrow> next_m s1 = next_m s"
  by (auto simp: access_def Let_def split: sum.splits)

lemma step_new_id:
  assumes "errno_nonzero H" "step H s x = Some (r, out, s1)"
  shows "case new_id H s x of
           None \<Rightarrow> next_m s1 = next_m s
         | Some i \<Rightarrow> i = next_m s \<and> next_m s1 = next_m s + 1"
proof (cases x)
  case (Op_create p mode info)
  then obtain i where c: "create H s p mode info = Some (r, i, s1)"
    using assms(2) by auto
  show ?thesis using create_id[OF assms(1) c] Op_create c by (simp add: new_id_def)
next
  case (Op_open p info)
  then obtain i where c: "open H s p info = Some (r, i, s1)"
    using assms(2) by auto
  show ?thesis using open_id[OF assms(1) c] Op_open c
    by (auto simp: new_id_def split: option.splits)
next
  case (Op_read sz off fh)
  then show ?thesis using assms(2) by (auto simp: new_id_def dest: read_next)
next
  case (Op_write buf off fh)
  then show ?thesis using assms(2) by (auto simp: new_id_def with_out_def dest: write_next)
next
  case (Op_truncate u p off)
  then show ?thesis using assms(2) by (auto simp: new_id_def with_out_def dest: truncate_next)
next
  case (Op_ftruncate off info)
  then show ?thesis using assms(2)
    by (auto simp: new_id_def with_out_def ftruncate_def dest: truncatefd_next)
next
  case (Op_rename a b)
  then show ?thesis using assms(2) by (auto simp: new_id_def with_out_def dest: rename_next)
next
  case (Op_release info)
  then show ?thesis using assms(2) by (auto simp: new_id_def with_out_def dest: release_next)
next
  case (Op_fgetattr bn info)
  then show ?thesis using assms(2)
    by (auto simp: new_id_def fgetattr_def dest: statfd_next)
next
  case (Op_access p mode)
  then show ?thesis using assms(2) by (auto simp: new_id_def with_out_def dest: access_next)
qed

lemma new_ids_sorted:
  "errno_nonzero H \<Longrightarrow>
   sorted_wrt (<) (new_ids H s ops) \<and> (\<forall>i \<in> set (new_ids H s ops). next_m s \<le> i)"
proof (induction ops arbitrary: s)
  case Nil
  then show ?case by simp
next
  case (Cons x xs)
  show ?case
  proof (cases "step H s x")
    case None
    then show ?thesis by simp
  next
    case (Some a)
    obtain r out s1 where a: "a = (r, out, s1)" by (cases a)
    note ih = Cons.IH[OF Cons.prems, of s1]
    from step_new_id[OF Cons.prems Some[unfolded a]]
    show ?thesis
      using Some a ih by (cases "new_id H s x") force+
  qed
qed

text \<open>
  Claim C8, as stated, fails: \<^verbatim>\<open>create\<close> of \<^verbatim>\<open>/a\<close> followed by \<^verbatim>\<open>open\<close> of \<^verbatim>\<open>/a\<close> are two
  successful calls, and both hand the id 0 to their caller.
\<close>

theorem shared_id_counterexample:
  "map_option fst
     (run toy (mount True toy_empty)
        [Op_create ''/a'' 384 \<lparr>info_flags = O_RDWR, info_fh = 5\<rparr>,
         Op_open ''/a'' \<lparr>info_flags = O_RDONLY, info_fh = 9\<rparr>])
   = Some [(0, Out_info \<lparr>info_flags = 66, info_fh = 0\<rparr>),
           (0, Out_info \<lparr>info_flags = 0, info_fh = 0\<rparr>)]"
  by (simp add: toy_defs const_defs op_defs Let_def)

text \<open>
  Claim C8, amended. The handle ids newly allocated during any run of callbacks (by each
  successful \<^verbatim>\<open>create\<close>, and by each successful \<^verbatim>\<open>open\<close> of a path that has no entry), taken
  in order, are strictly increasing, hence pairwise distinct, and none is below the
  counter \<^verbatim>\<open>next_\<close> the run started with, which is 0 for a fresh mount. The host is any
  host whose failing calls set a nonzero \<^verbatim>\<open>errno\<close>.
\<close>

theorem new_ids_strictly_increasing:
  "errno_nonzero H \<Longrightarrow>
   sorted_wrt (<) (new_ids H s ops) \<and> distinct (new_ids H s ops) \<and>
   (\<forall>i \<in> set (new_ids H s ops). next_m s \<le> i)"
  using new_ids_sorted [of H s ops] by (simp add: strict_sorted_iff)

theorem new_ids_strictly_increasing_witness:
  "errno_nonzero toy \<and>
   new_ids toy (mount True toy_empty)
     [Op_create ''/a'' 384 \<lparr>info_flags = O_RDWR, info_fh = 5\<rparr>,
      Op_open ''/a'' \<lparr>info_flags = O_RDONLY, info_fh = 9\<rparr>,
      Op_create ''/b'' 384 \<lparr>info_flags = O_WRONLY, info_fh = 5\<rparr>,
      Op_open ''/c'' \<lparr>info_flags = O_RDONLY, info_fh = 9\<rparr>,
      Op_release \<lparr>info_flags = 0, info_fh = 0\<rparr>,
      Op_release \<lparr>info_flags = 0, info_fh = 0\<rparr>,
      Op_open ''/a'' \<lparr>info_flags = O_RDONLY, info_fh = 9\<rparr>] = [0, 1, 2] \<and>
   sorted_wrt (<) [0, 1, 2 :: nat]"
proof -
  let ?ops = "[Op_create ''/a'' 384 \<lparr>info_flags = O_RDWR, info_fh = 5\<rparr>,
      Op_open ''/a'' \<lparr>info_flags = O_RDONLY, info_fh = 9\<rparr>,
      Op_create ''/b'' 384 \<lparr>info_flags = O_WRONLY, info_fh = 5\<rparr>,
      Op_open ''/c'' \<lparr>info_flags = O_RDONLY, info_fh = 9\<rparr>,
      Op_release \<lparr>info_flags = 0, info_fh = 0\<rparr>,
      Op_release \<lparr>info_flags = 0, info_fh = 0\<rparr>,
      Op_open ''/a'' \<lparr>info_flags = O_RDONLY, info_fh = 9\<rparr>]"
  have e: "new_ids toy (mount True toy_empty) ?ops = [0, 1, 2]"
    by (simp add: toy_defs const_defs op_defs new_id_def Let_def)
  from new_ids_strictly_increasing [OF toy_errno_nonzero, of "mount True toy_empty" ?ops]
  have "sorted_wrt (<) (new_ids toy (mount True toy_empty) ?ops)" by blast
  then show ?thesis using e toy_errno_nonzero by simp
qed

subsection \<open>The invariant dirty implies buffer_set\<close>

lemma load_loop_result:
  "load_loop H fdn u n off ret buf h = Some (r, bs, b, h1) \<Longrightarrow> bs \<or> r = EIO"
proof (induction H fdn u n off ret buf h rule: load_loop.induct)
  case (1 H fdn underlying fd_size offset ret buf h)
  from "1.prems" show ?case
    apply (subst (asm) load_loop.simps)
    apply (simp only: Let_def split: if_splits option.splits)
    apply (auto dest: "1.IH"[rotated -1])
    done
qed

lemma load_buffer_keeps:
  "load_buffer H d h = Some (r, d1, h1) \<Longrightarrow> dirty d \<longrightarrow> buffer_set d \<Longrightarrow>
     dirty d1 \<longrightarrow> buffer_set d1"
  by (auto simp: load_buffer_def Let_def split: if_splits sum.splits option.splits)

lemma load_buffer_success:
  assumes "errno_nonzero H" "load_buffer H d h = Some (0, d1, h1)"
  shows "buffer_set d1"
proof -
  have nz: "\<And>h n e. h_fstat H h n = Inl e \<Longrightarrow> e \<noteq> 0"
    "\<And>h n len e. h_mmap H h n len = Inl e \<Longrightarrow> e \<noteq> 0"
    using assms(1) by (auto simp: errno_nonzero_def)
  show ?thesis
    using assms(2)
    by (auto simp: load_buffer_def Let_def EIO_def
        split: if_splits sum.splits option.splits dest: nz load_loop_result)
qed

lemma dirty_knownI:
  "(\<And>fh d. open_fds_m s fh = Some d \<Longrightarrow> dirty d \<Longrightarrow> buffer_set d) \<Longrightarrow> dirty_known s"
  by (simp add: dirty_known_def)

lemma dirty_knownD:
  "dirty_known s \<Longrightarrow> open_fds_m s fh = Some d \<Longrightarrow> dirty d \<Longrightarrow> buffer_set d"
  by (simp add: dirty_known_def)

lemma dirty_known_update:
  "dirty_known s \<Longrightarrow> dirty d \<longrightarrow> buffer_set d \<Longrightarrow> open_fds_m s1 = (open_fds_m s)(fh \<mapsto> d)
     \<Longrightarrow> dirty_known s1"
  by (auto simp: dirty_known_def)

lemma dirty_known_same:
  "dirty_known s \<Longrightarrow> open_fds_m s1 = open_fds_m s \<Longrightarrow> dirty_known s1"
  by (auto simp: dirty_known_def)

lemma dirty_known_remove:
  "dirty_known s \<Longrightarrow> open_fds_m s1 = (open_fds_m s)(fh := None) \<Longrightarrow> dirty_known s1"
  by (auto simp: dirty_known_def split: if_splits)

lemma dirty_known_insert:
  "dirty_known s \<Longrightarrow> \<not> dirty d \<Longrightarrow> open_fds_m s1 = map_insert (open_fds_m s) fh d
     \<Longrightarrow> dirty_known s1"
  by (auto simp: dirty_known_def map_insert_def split: option.splits if_splits)

lemma insert_open_file_keeps:
  "insert_open_file s p info ret fl bs = (r, i, s1) \<Longrightarrow> dirty_known s \<Longrightarrow> dirty_known s1"
  by (rule dirty_known_insert[where s = s and fh = "next_m s"
        and d = "\<lparr>fd = ret, flags = fl, references = 1, path = p, buffer_set = bs,
                  dirty = False, buffer = [], open_m = True\<rparr>"])
     (auto simp: insert_open_file_def next_fd_def Let_def)

lemma host_update_keeps: "dirty_known s \<Longrightarrow> dirty_known (s\<lparr>host := h\<rparr>)"
  by (simp add: dirty_known_def)

lemma create_keeps:
  assumes "create H s p mode info = Some (r, i, s1)" "dirty_known s"
  shows "dirty_known s1"
proof -
  have k: "\<And>h. dirty_known (s\<lparr>host := h\<rparr>)"
    using assms(2) by (rule host_update_keeps)
  show ?thesis
    using assms(1) k
    by (auto simp: create_def Let_def split: sum.splits if_splits
        dest: insert_open_file_keeps)
qed

lemma open_keeps:
  assumes "open H s p info = Some (r, i, s1)" "dirty_known s"
  shows "dirty_known s1"
proof (cases "open_paths_m s p")
  case (Some fdn)
  then obtain d where d: "open_fds_m s fdn = Some d"
    and s1: "s1 = s\<lparr>open_fds_m := (open_fds_m s)(fdn \<mapsto> d\<lparr>references := references d + 1\<rparr>)\<rparr>"
    using assms(1) by (auto simp: open_def split: option.splits)
  have "dirty (d\<lparr>references := references d + 1\<rparr>) \<longrightarrow> buffer_set (d\<lparr>references := references d + 1\<rparr>)"
    using dirty_knownD[OF assms(2) d] by simp
  then show ?thesis
    by (rule dirty_known_update[OF assms(2)]) (simp add: s1)
next
  case None
  have k: "\<And>h. dirty_known (s\<lparr>host := h\<rparr>)"
    using assms(2) by (rule host_update_keeps)
  show ?thesis
    using assms(1) None k
    by (auto simp: open_def open_finish_def Let_def split: sum.splits if_splits
        dest: insert_open_file_keeps)
qed

lemma read_keeps:
  assumes "read H s sz off fh = Some (r, b, s1)" "dirty_known s"
  shows "dirty_known s1"
proof (cases "open_fds_m s fh")
  case None
  then show ?thesis using assms by (simp add: read_def)
next
  case (Some d)
  show ?thesis
  proof (cases "off < 0 \<or> \<not> read_m s")
    case True
    then have "s1 = s"
      using assms(1) Some by (auto simp: read_def Let_def split: if_splits)
    then show ?thesis using assms(2) by simp
  next
    case False
    then obtain ret d1 h1 where l: "load_buffer H d (host s) = Some (ret, d1, h1)"
      and s1: "s1 = s\<lparr>open_fds_m := (open_fds_m s)(fh \<mapsto> d1), host := h1\<rparr>"
      using assms(1) Some by (auto simp: read_def Let_def split: if_splits option.splits)
    have "dirty d1 \<longrightarrow> buffer_set d1"
      using load_buffer_keeps[OF l] dirty_knownD[OF assms(2) Some] by blast
    then show ?thesis
      by (rule dirty_known_update[OF assms(2)]) (simp add: s1)
  qed
qed

lemma write_keeps:
  assumes "write H s buf off fh = Some (r, s1)" "dirty_known s"
    and "buf = [] \<or> off < 0 \<or> buffer_known s fh"
  shows "dirty_known s1"
proof (cases "open_fds_m s fh")
  case None
  then show ?thesis using assms by (simp add: write_def)
next
  case (Some d)
  show ?thesis
  proof (cases "buf = [] \<or> off < 0")
    case True
    then have "s1 = s" using assms(1) Some by (auto simp: write_def split: if_splits)
    then show ?thesis using assms(2) by simp
  next
    case False
    then have b: "buffer_set d" using assms(3) Some by (simp add: buffer_known_def)
    from False obtain d1 where s1: "s1 = s\<lparr>open_fds_m := (open_fds_m s)(fh \<mapsto> d1)\<rparr>"
      and d1: "buffer_set d1 = buffer_set d"
      using assms(1) Some by (auto simp: write_def Let_def split: option.splits if_splits)
    have "dirty d1 \<longrightarrow> buffer_set d1" using b d1 by simp
    then show ?thesis
      by (rule dirty_known_update[OF assms(2)]) (simp add: s1)
  qed
qed

lemma truncatefd_keeps:
  assumes "errno_nonzero H" "truncatefd H s fdn off = Some (r, s1)" "dirty_known s"
    and "off \<noteq> 0 \<or> buffer_known s fdn"
  shows "dirty_known s1"
proof (cases "open_fds_m s fdn")
  case None
  then show ?thesis using assms by (simp add: truncatefd_def)
next
  case (Some d)
  consider "off < 0" | "off = 0" | "0 < off" "read_m s" | "0 < off" "\<not> read_m s"
    by linarith
  then show ?thesis
  proof cases
    case 1
    then have "s1 = s" using assms(2) Some by (simp add: truncatefd_def)
    then show ?thesis using assms(3) by simp
  next
    case 2
    then have b: "buffer_set d" using assms(4) Some by (simp add: buffer_known_def)
    show ?thesis
    proof (cases "fst (h_ftruncate H (host s) (fd d) 0)")
      case (Inl e)
      then have "open_fds_m s1 = open_fds_m s"
        using assms(2) Some 2 by (auto simp: truncatefd_def Let_def)
      then show ?thesis by (rule dirty_known_same[OF assms(3)])
    next
      case (Inr x)
      then have "open_fds_m s1 = (open_fds_m s)(fdn \<mapsto> d\<lparr>buffer := resize 0 (buffer d), dirty := True\<rparr>)"
        using assms(2) Some 2 by (auto simp: truncatefd_def Let_def)
      moreover have "dirty (d\<lparr>buffer := resize 0 (buffer d), dirty := True\<rparr>)
          \<longrightarrow> buffer_set (d\<lparr>buffer := resize 0 (buffer d), dirty := True\<rparr>)"
        using b by simp
      ultimately show ?thesis
        using dirty_known_update[OF assms(3)] by blast
    qed
  next
    case 3
    then obtain ret d1 h1 where l: "load_buffer H d (host s) = Some (ret, d1, h1)"
      using assms(2) Some by (auto simp: truncatefd_def split: option.splits)
    show ?thesis
    proof (cases "ret = 0")
      case True
      then have b: "buffer_set d1" using load_buffer_success[OF assms(1)] l by simp
      obtain resized where
        "open_fds_m s1 = (open_fds_m s)(fdn \<mapsto> d1\<lparr>buffer := resized, dirty := True\<rparr>)"
        using assms(2) Some 3 l True by (auto simp: truncatefd_def split: option.splits)
      then show ?thesis
        using b dirty_known_update[OF assms(3), of "d1\<lparr>buffer := resized, dirty := True\<rparr>" s1 fdn]
        by simp
    next
      case False
      then have "open_fds_m s1 = (open_fds_m s)(fdn \<mapsto> d1)"
        using assms(2) Some 3 l by (auto simp: truncatefd_def)
      moreover have "dirty d1 \<longrightarrow> buffer_set d1"
        using load_buffer_keeps[OF l] dirty_knownD[OF assms(3) Some] by blast
      ultimately show ?thesis
        using dirty_known_update[OF assms(3)] by blast
    qed
  next
    case 4
    then have "s1 = s" using assms(2) Some by (simp add: truncatefd_def)
    then show ?thesis using assms(3) by simp
  qed
qed

lemma truncate_keeps:
  assumes "errno_nonzero H" "truncate H u s p off = Some (r, s1)" "dirty_known s"
    and "off \<noteq> 0 \<or> (case open_paths_m s p of None \<Rightarrow> True | Some fh \<Rightarrow> buffer_known s fh)"
  shows "dirty_known s1"
proof (cases "off < 0")
  case True
  then have "s1 = s" using assms(2) by (simp add: truncate_def)
  then show ?thesis using assms(3) by simp
next
  case nn: False
  show ?thesis
  proof (cases "open_paths_m s p")
    case (Some fdn)
    then have w: "truncatefd H s fdn off = Some (r, s1)"
      using assms(2) nn by (simp add: truncate_def)
    have k: "off \<noteq> 0 \<or> buffer_known s fdn"
      using assms(4) Some by simp
    show ?thesis by (rule truncatefd_keeps[OF assms(1) w assms(3) k])
  next
    case None
    have "open_fds_m s1 = open_fds_m s"
      using assms(2) nn None
      by (auto simp: truncate_def Let_def split: if_splits sum.splits option.splits)
    then show ?thesis by (rule dirty_known_same[OF assms(3)])
  qed
qed

lemma rename_keeps:
  assumes "rename H s a b = Some (r, s1)" "dirty_known s"
  shows "dirty_known s1"
proof (cases "fst (h_rename H (host s) (relpath a) (relpath b))")
  case (Inl e)
  then have "open_fds_m s1 = open_fds_m s"
    using assms(1) by (auto simp: rename_def Let_def)
  then show ?thesis by (rule dirty_known_same[OF assms(2)])
next
  case (Inr x)
  show ?thesis
  proof (cases "open_paths_m s a")
    case None
    then have "open_fds_m s1 = open_fds_m s"
      using assms(1) Inr by (auto simp: rename_def Let_def)
    then show ?thesis by (rule dirty_known_same[OF assms(2)])
  next
    case (Some fdn)
    then obtain d where d: "open_fds_m s fdn = Some d"
      and s1: "open_fds_m s1 = (open_fds_m s)(fdn \<mapsto> d\<lparr>path := b\<rparr>)"
      using assms(1) Inr by (auto simp: rename_def Let_def split: option.splits)
    have "dirty (d\<lparr>path := b\<rparr>) \<longrightarrow> buffer_set (d\<lparr>path := b\<rparr>)"
      using dirty_knownD[OF assms(2) d] by simp
    then show ?thesis using s1 by (rule dirty_known_update[OF assms(2)])
  qed
qed

lemma release_keeps:
  assumes "release H s info = Some (r, s1)" "dirty_known s"
  shows "dirty_known s1"
proof (cases "open_fds_m s (info_fh info)")
  case None
  then show ?thesis using assms by (simp add: release_def)
next
  case (Some d)
  show ?thesis
  proof (cases "references d - 1 = 0")
    case True
    then have "open_fds_m s1 = (open_fds_m s)(info_fh info := None)"
      using assms(1) Some by (auto simp: release_def Let_def split: option.splits)
    then show ?thesis by (rule dirty_known_remove[OF assms(2)])
  next
    case False
    then have "open_fds_m s1 = (open_fds_m s)(info_fh info \<mapsto> d\<lparr>references := references d - 1\<rparr>)"
      using assms(1) Some by (auto simp: release_def Let_def)
    moreover have "dirty (d\<lparr>references := references d - 1\<rparr>)
         \<longrightarrow> buffer_set (d\<lparr>references := references d - 1\<rparr>)"
      using dirty_knownD[OF assms(2) Some] by simp
    ultimately show ?thesis using dirty_known_update[OF assms(2)] by blast
  qed
qed

lemma statfd_keeps:
  assumes "statfd H s fdn bn = Some (r, st, s1)" "dirty_known s"
  shows "dirty_known s1"
proof -
  have "s1 = s \<or> (\<exists>d ret d1 h1. open_fds_m s fdn = Some d \<and>
      (if read_m s then load_buffer H d (host s) else Some (0, d, host s)) = Some (ret, d1, h1) \<and>
      open_fds_m s1 = (open_fds_m s)(fdn \<mapsto> d1))"
    using assms(1)
    by (auto simp: statfd_def Let_def split: if_splits sum.splits option.splits)
  then show ?thesis
  proof
    assume "s1 = s" then show ?thesis using assms(2) by simp
  next
    assume "\<exists>d ret d1 h1. open_fds_m s fdn = Some d \<and>
      (if read_m s then load_buffer H d (host s) else Some (0, d, host s)) = Some (ret, d1, h1) \<and>
      open_fds_m s1 = (open_fds_m s)(fdn \<mapsto> d1)"
    then obtain d ret d1 h1 where d: "open_fds_m s fdn = Some d"
      and l: "(if read_m s then load_buffer H d (host s) else Some (0, d, host s)) = Some (ret, d1, h1)"
      and s1: "open_fds_m s1 = (open_fds_m s)(fdn \<mapsto> d1)" by blast
    have "dirty d1 \<longrightarrow> buffer_set d1"
      using l load_buffer_keeps[of H d "host s" ret d1 h1] dirty_knownD[OF assms(2) d]
      by (cases "read_m s") auto
    then show ?thesis using s1 by (rule dirty_known_update[OF assms(2)])
  qed
qed

lemma access_keeps: "access H s p mode = Some (r, s1) \<Longrightarrow> dirty_known s \<Longrightarrow> dirty_known s1"
  by (auto simp: access_def Let_def split: sum.splits)

lemma step_keeps:
  assumes "errno_nonzero H" "step H s x = Some (r, out, s1)" "dirty_known s" "on_known_buffer s x"
  shows "dirty_known s1"
proof (cases x)
  case (Op_create p mode info)
  then obtain i where "create H s p mode info = Some (r, i, s1)"
    using assms(2) by auto
  then show ?thesis using assms(3) by (rule create_keeps)
next
  case (Op_open p info)
  then obtain i where "open H s p info = Some (r, i, s1)"
    using assms(2) by auto
  then show ?thesis using assms(3) by (rule open_keeps)
next
  case (Op_read sz off fh)
  then obtain b where "read H s sz off fh = Some (r, b, s1)"
    using assms(2) by auto
  then show ?thesis using assms(3) by (rule read_keeps)
next
  case (Op_write buf off fh)
  then have w: "write H s buf off fh = Some (r, s1)"
    using assms(2) by (auto simp: with_out_def)
  have k: "buf = [] \<or> off < 0 \<or> buffer_known s fh"
    using assms(4) Op_write by simp
  show ?thesis by (rule write_keeps[OF w assms(3) k])
next
  case (Op_truncate u p off)
  then have w: "truncate H u s p off = Some (r, s1)"
    using assms(2) by (auto simp: with_out_def)
  have k: "off \<noteq> 0 \<or> (case open_paths_m s p of None \<Rightarrow> True | Some fh \<Rightarrow> buffer_known s fh)"
    using assms(4) Op_truncate by simp
  show ?thesis by (rule truncate_keeps[OF assms(1) w assms(3) k])
next
  case (Op_ftruncate off info)
  then have w: "truncatefd H s (info_fh info) off = Some (r, s1)"
    using assms(2) by (auto simp: with_out_def ftruncate_def)
  have k: "off \<noteq> 0 \<or> buffer_known s (info_fh info)"
    using assms(4) Op_ftruncate by simp
  show ?thesis by (rule truncatefd_keeps[OF assms(1) w assms(3) k])
next
  case (Op_rename a b)
  then have "rename H s a b = Some (r, s1)"
    using assms(2) by (auto simp: with_out_def)
  then show ?thesis using assms(3) by (rule rename_keeps)
next
  case (Op_release info)
  then have "release H s info = Some (r, s1)"
    using assms(2) by (auto simp: with_out_def)
  then show ?thesis using assms(3) by (rule release_keeps)
next
  case (Op_fgetattr bn info)
  then obtain st where "statfd H s (info_fh info) bn = Some (r, st, s1)"
    using assms(2) by (auto simp: fgetattr_def)
  then show ?thesis using assms(3) by (rule statfd_keeps)
next
  case (Op_access p mode)
  then have "access H s p mode = Some (r, s1)"
    using assms(2) by (auto simp: with_out_def)
  then show ?thesis using assms(3) by (rule access_keeps)
qed

lemma run_keeps:
  "errno_nonzero H \<Longrightarrow> dirty_known s \<Longrightarrow> run_on_known_buffers H s ops \<Longrightarrow>
     run H s ops = Some (rs, s1) \<Longrightarrow> dirty_known s1"
proof (induction ops arbitrary: s rs)
  case Nil
  then show ?case by simp
next
  case (Cons x xs)
  from Cons.prems(4) obtain r out s2 rs2 where st: "step H s x = Some (r, out, s2)"
    and rn: "run H s2 xs = Some (rs2, s1)"
    by (auto split: option.splits)
  have k: "dirty_known s2"
    using step_keeps[OF Cons.prems(1) st Cons.prems(2)] Cons.prems(3) by simp
  have o: "run_on_known_buffers H s2 xs" using Cons.prems(3) st by simp
  show ?case by (rule Cons.IH[OF Cons.prems(1) k o rn])
qed

text \<open>
  Claim C2, as stated, fails. In read/write mode, on a backing file that exists and is not
  empty, \<^verbatim>\<open>open\<close> with \<^verbatim>\<open>O_APPEND | O_WRONLY\<close> followed by a \<^verbatim>\<open>write\<close> (the steps of the
  repository's own test \<^verbatim>\<open>Append\<close>) returns 0 and 7 and leaves the state of handle 0 with
  \<open>dirty\<close> true and \<open>buffer_set\<close> false.
\<close>

theorem dirty_without_buffer_set_counterexample:
  "flags_after_run toy (mount True toy_with_x)
     [Op_open ''/x'' \<lparr>info_flags = O_APPEND OR O_WRONLY, info_fh = 0\<rparr>,
      Op_write ''hijklmn'' 0 0] 0
   = Some ([0, 7], Some (True, False))"
  by (simp add: flags_after_run_def toy_defs const_defs op_defs terminator_def Let_def)

text \<open>
  Claim C2, amended. The invariant \<open>dirty \<Longrightarrow> buffer_set\<close> holds in the state the
  constructor builds, and it holds after every run of callbacks (\<^verbatim>\<open>create\<close>, \<^verbatim>\<open>open\<close>,
  \<^verbatim>\<open>read\<close>, \<^verbatim>\<open>write\<close>, \<^verbatim>\<open>truncate\<close>, \<^verbatim>\<open>ftruncate\<close>, \<^verbatim>\<open>rename\<close>, \<^verbatim>\<open>release\<close>, \<^verbatim>\<open>fgetattr\<close>,
  \<^verbatim>\<open>access\<close>) that starts in a state where it holds, provided that every \<^verbatim>\<open>write\<close> of bytes
  and every truncation to offset 0 in the run reaches only open files whose buffer is
  known, on a host whose failing calls set a nonzero \<^verbatim>\<open>errno\<close>. Every prefix of such a run
  is such a run, so the invariant holds after each of its callbacks.
\<close>

theorem dirty_implies_buffer_set:
  "dirty_known (asymmetricfs_init h0) \<and>
   (errno_nonzero H \<and> dirty_known s \<and> run_on_known_buffers H s ops \<and> run H s ops = Some (rs, s1)
      \<longrightarrow> dirty_known s1)"
proof (intro conjI impI)
  show "dirty_known (asymmetricfs_init h0)"
    by (simp add: dirty_known_def asymmetricfs_init_def)
next
  assume "errno_nonzero H \<and> dirty_known s \<and> run_on_known_buffers H s ops \<and> run H s ops = Some (rs, s1)"
  then show "dirty_known s1"
    using run_keeps[of H s ops rs s1] by blast
qed

theorem dirty_implies_buffer_set_witness:
  "errno_nonzero toy \<and> dirty_known (mount True toy_empty) \<and>
   run_on_known_buffers toy (mount True toy_empty)
     [Op_create ''/test'' 384 \<lparr>info_flags = O_CREAT OR O_RDWR, info_fh = 0\<rparr>,
      Op_write ''abcdefg'' 0 0,
      Op_ftruncate 3 \<lparr>info_flags = 0, info_fh = 0\<rparr>,
      Op_read 10 0 0,
      Op_ftruncate 0 \<lparr>info_flags = 0, info_fh = 0\<rparr>,
      Op_release \<lparr>info_flags = 0, info_fh = 0\<rparr>] \<and>
   (\<exists>rs s1.
      run toy (mount True toy_empty)
        [Op_create ''/test'' 384 \<lparr>info_flags = O_CREAT OR O_RDWR, info_fh = 0\<rparr>,
         Op_write ''abcdefg'' 0 0,
         Op_ftruncate 3 \<lparr>info_flags = 0, info_fh = 0\<rparr>,
         Op_read 10 0 0,
         Op_ftruncate 0 \<lparr>info_flags = 0, info_fh = 0\<rparr>,
         Op_release \<lparr>info_flags = 0, info_fh = 0\<rparr>] = Some (rs, s1) \<and>
      map fst rs = [0, 7, 0, 3, 0, 0] \<and> dirty_known s1)"
proof -
  let ?s = "mount True toy_empty"
  let ?ops = "[Op_create ''/test'' 384 \<lparr>info_flags = O_CREAT OR O_RDWR, info_fh = 0\<rparr>,
      Op_write ''abcdefg'' 0 0,
      Op_ftruncate 3 \<lparr>info_flags = 0, info_fh = 0\<rparr>,
      Op_read 10 0 0,
      Op_ftruncate 0 \<lparr>info_flags = 0, info_fh = 0\<rparr>,
      Op_release \<lparr>info_flags = 0, info_fh = 0\<rparr>]"
  have e: "errno_nonzero toy" by (rule toy_errno_nonzero)
  have i: "dirty_known ?s"
    by (simp add: dirty_known_def mount_def set_read_def asymmetricfs_init_def)
  have k: "run_on_known_buffers toy ?s ?ops"
    by (simp add: buffer_known_def toy_defs const_defs op_defs load_buffer_def Let_def)
  have "\<exists>rs s1. run toy ?s ?ops = Some (rs, s1) \<and> map fst rs = [0, 7, 0, 3, 0, 0]"
    by (simp add: toy_defs const_defs op_defs load_buffer_def Let_def)
  then obtain rs s1 where r: "run toy ?s ?ops = Some (rs, s1)"
    and v: "map fst rs = [0, 7, 0, 3, 0, 0]" by (elim exE conjE)
  from dirty_implies_buffer_set [of toy_empty toy ?s ?ops rs s1]
  have "dirty_known s1" using e i k r by (elim conjE impE) (intro conjI)
  then show ?thesis using e i k r v by (intro conjI exI)
qed

subsection \<open>Further properties of read, load_buffer and truncatefd\<close>

text \<open>
  In write-only mode, \<^verbatim>\<open>read\<close> on a handle whose buffer is known, at an offset \<open>\<ge> 0\<close>,
  returns \<open>min (buffer.size - offset) size\<close> capped at \<^verbatim>\<open>INT_MAX\<close>, hands back that many
  bytes of the buffer from position \<open>offset\<close> on (none at or past the end), and changes
  nothing.
\<close>

theorem read_write_only_contract:
  "open_fds_m s fh = Some d \<Longrightarrow> \<not> read_m s \<Longrightarrow> buffer_set d \<Longrightarrow> 0 \<le> off \<Longrightarrow>
   read H s sz off fh
     = Some (int (min (min (length (buffer d) - nat off) sz) INT_MAX),
             take (min (min (length (buffer d) - nat off) sz) INT_MAX) (drop (nat off) (buffer d)),
             s)"
  by (simp add: read_def Let_def to_int_small)

theorem read_write_only_contract_witness:
  "open_fds_m (demo_fs False) 0 = Some demo_data \<and> \<not> read_m (demo_fs False) \<and>
   buffer_set demo_data \<and> (0::int) \<le> 3 \<and>
   read toy (demo_fs False) 100 3 0 = Some (4, ''defg'', demo_fs False) \<and>
   read toy (demo_fs False) 100 7 0 = Some (0, [], demo_fs False)"
  using read_write_only_contract [of "demo_fs False" 0 demo_data 3 toy 100]
    read_write_only_contract [of "demo_fs False" 0 demo_data 7 toy 100]
  by (simp add: demo_fs_def demo_data_def INT_MAX_def)

text \<open>
  In read/write mode, \<^verbatim>\<open>read\<close> on a handle whose buffer is known, at an offset \<open>\<ge> 0\<close>,
  returns the count \<open>min (buffer.size - offset) size\<close> (taken below \<^verbatim>\<open>INT_MAX\<close>, as the
  code asserts), changes nothing, and hands back that many bytes from the start of the
  buffer, whatever the offset.
\<close>

theorem read_read_mode_prefix:
  "open_fds_m s fh = Some d \<Longrightarrow> read_m s \<Longrightarrow> buffer_set d \<Longrightarrow> 0 \<le> off \<Longrightarrow>
   min (length (buffer d) - nat off) sz < INT_MAX \<Longrightarrow>
   read H s sz off fh
     = Some (int (min (length (buffer d) - nat off) sz),
             take (min (length (buffer d) - nat off) sz) (buffer d),
             s)"
  by (simp add: read_def Let_def to_int_small load_buffer_known table_update_same)

theorem read_read_mode_prefix_witness:
  "open_fds_m (demo_fs True) 0 = Some demo_data \<and> read_m (demo_fs True) \<and>
   buffer_set demo_data \<and> (0::int) \<le> 3 \<and>
   min (length (buffer demo_data) - nat 3) 100 < INT_MAX \<and>
   read toy (demo_fs True) 100 3 0 = Some (4, ''abcd'', demo_fs True)"
  using read_read_mode_prefix [of "demo_fs True" 0 demo_data 3 100 toy]
  by (simp add: demo_fs_def demo_data_def INT_MAX_def)

text \<open>
  \<^verbatim>\<open>load_buffer\<close> on a state whose buffer is not known does not look at the bytes the
  buffer holds nor at \<open>dirty\<close>: it clears both before it decrypts the backing file. So in
  read/write mode the bytes written to a handle that was opened on a non-empty file are
  gone at the next \<^verbatim>\<open>read\<close>, which returns the decrypted old content; nothing is flushed
  at \<^verbatim>\<open>release\<close>.
\<close>

theorem load_buffer_discards_buffer:
  "\<not> buffer_set d \<Longrightarrow>
   load_buffer H (d\<lparr>buffer := b, dirty := x\<rparr>) h = load_buffer H (d\<lparr>buffer := [], dirty := False\<rparr>) h"
  by (simp add: load_buffer_def Let_def)

theorem lost_write_witness:
  "\<not> buffer_set \<lparr>fd = 3, flags = O_RDWR, references = 1, path = ''/x'', buffer_set = False,
                   dirty = False, buffer = [], open_m = True\<rparr> \<and>
   map_option fst
     (run toy (mount True toy_with_x)
        [Op_open ''/x'' \<lparr>info_flags = O_RDWR, info_fh = 0\<rparr>,
         Op_write ''hi'' 0 0,
         Op_read 10 0 0,
         Op_release \<lparr>info_flags = 0, info_fh = 0\<rparr>])
     = Some [(0, Out_info \<lparr>info_flags = O_RDWR, info_fh = 0\<rparr>), (2, Out_none),
             (3, Out_bytes ''abc''), (0, Out_none)] \<and>
   load_buffer toy
     (\<lparr>fd = 3, flags = O_RDWR, references = 1, path = ''/x'', buffer_set = False,
       dirty = False, buffer = [], open_m = True\<rparr>\<lparr>buffer := ''hi'', dirty := True\<rparr>)
     (toy_with_x\<lparr>fds := [3 \<mapsto> (''./x'', O_RDWR, 0)], next_host_fd := 4\<rparr>)
   = load_buffer toy
     (\<lparr>fd = 3, flags = O_RDWR, references = 1, path = ''/x'', buffer_set = False,
       dirty = False, buffer = [], open_m = True\<rparr>\<lparr>buffer := [], dirty := False\<rparr>)
     (toy_with_x\<lparr>fds := [3 \<mapsto> (''./x'', O_RDWR, 0)], next_host_fd := 4\<rparr>)"
proof -
  let ?d = "\<lparr>fd = 3, flags = O_RDWR, references = 1, path = ''/x'', buffer_set = False,
                   dirty = False, buffer = [], open_m = True\<rparr>"
  have n: "\<not> buffer_set ?d" by simp
  have f: "find_terminator (''abc'' @ terminator) 29 0 = 29"
    by (simp add: find_terminator.simps terminator_def terminator_size_def)
  have l: "load_loop toy 3 (''abc'' @ terminator) 29 0 0 []
       (toy_with_x\<lparr>fds := [3 \<mapsto> (''./x'', 2, 0)], next_host_fd := 4\<rparr>)
     = Some (0, True, ''abc'',
             toy_with_x\<lparr>fds := [3 \<mapsto> (''./x'', 2, length (''abc'' @ terminator))],
                        next_host_fd := 4\<rparr>)"
    by (simp add: load_loop.simps[of _ _ _ _ 0] load_loop.simps[of _ _ _ _ 29]
        f[unfolded terminator_def, simplified] Let_def toy_defs terminator_size_def
        terminator_def decrypt_argv_def O_ACCMODE_def O_WRONLY_def)
  have r: "map_option fst
     (run toy (mount True toy_with_x)
        [Op_open ''/x'' \<lparr>info_flags = O_RDWR, info_fh = 0\<rparr>,
         Op_write ''hi'' 0 0,
         Op_read 10 0 0,
         Op_release \<lparr>info_flags = 0, info_fh = 0\<rparr>])
     = Some [(0, Out_info \<lparr>info_flags = O_RDWR, info_fh = 0\<rparr>), (2, Out_none),
             (3, Out_bytes ''abc''), (0, Out_none)]"
    using l[unfolded terminator_def, simplified]
    by (simp add: toy_defs const_defs op_defs load_buffer_def Let_def terminator_def)
  show ?thesis
    using n r load_buffer_discards_buffer [OF n, where H = toy and b = "''hi''" and x = True]
    by simp
qed

text \<open>
  \<^verbatim>\<open>truncatefd\<close> with offset 0, when the host's \<^verbatim>\<open>ftruncate\<close> succeeds, empties the buffer
  and sets \<open>dirty\<close>; \<open>buffer_set\<close> stays as it was. In write-only mode, on a handle opened
  on a non-empty file, the state is then dirty with \<open>buffer_set\<close> false, and a \<^verbatim>\<open>read\<close> of
  bytes written after the truncation returns \<open>-EACCES\<close>.
\<close>

theorem truncatefd_zero_state:
  "open_fds_m s fh = Some d \<Longrightarrow> fst (h_ftruncate H (host s) (fd d) 0) = Inr u \<Longrightarrow>
   truncatefd H s fh 0
     = Some (0, s\<lparr>open_fds_m := (open_fds_m s)(fh \<mapsto> d\<lparr>buffer := [], dirty := True\<rparr>),
                  host := snd (h_ftruncate H (host s) (fd d) 0)\<rparr>)"
  by (simp add: truncatefd_def Let_def resize_zero)

theorem truncatefd_zero_state_witness:
  "flags_after_run toy (mount False toy_with_x)
     [Op_open ''/x'' \<lparr>info_flags = O_WRONLY, info_fh = 0\<rparr>,
      Op_ftruncate 0 \<lparr>info_flags = O_WRONLY, info_fh = 0\<rparr>,
      Op_write ''hi'' 0 0,
      Op_read 2 0 0] 0
   = Some ([0, 0, 2, - EACCES], Some (True, False))"
proof -
  let ?d = "\<lparr>fd = 3, flags = O_WRONLY, references = 1, path = ''/x'', buffer_set = False,
             dirty = False, buffer = [], open_m = True\<rparr>"
  let ?h = "toy_with_x\<lparr>fds := [3 \<mapsto> (''./x'', O_WRONLY, 0)], next_host_fd := 4\<rparr>"
  let ?s = "\<lparr>read_m = False, next_m = 1, open_paths_m = [''/x'' \<mapsto> 0], open_fds_m = [0 \<mapsto> ?d],
             recipients_m = [''KEY''], host = ?h\<rparr>"
  have o: "step toy (mount False toy_with_x) (Op_open ''/x'' \<lparr>info_flags = O_WRONLY, info_fh = 0\<rparr>)
      = Some (0, Out_info \<lparr>info_flags = O_WRONLY, info_fh = 0\<rparr>, ?s)"
    by (simp add: toy_defs const_defs op_defs terminator_def Let_def)
  have "open_fds_m ?s 0 = Some ?d" "fst (h_ftruncate toy (host ?s) (fd ?d) 0) = Inr ()"
    by (simp_all add: toy_defs const_defs)
  from truncatefd_zero_state [OF this]
  have t: "step toy ?s (Op_ftruncate 0 \<lparr>info_flags = O_WRONLY, info_fh = 0\<rparr>)
      = Some (0, Out_none,
              ?s\<lparr>open_fds_m := (open_fds_m ?s)(0 \<mapsto> ?d\<lparr>buffer := [], dirty := True\<rparr>),
                 host := snd (h_ftruncate toy (host ?s) (fd ?d) 0)\<rparr>)"
    by (simp add: with_out_def ftruncate_def)
  show ?thesis
    using o t
    by (simp add: flags_after_run_def toy_defs const_defs write_def read_def with_out_def
        to_int_def resize_def memcpy_at_def string_resize_def SIZE_RANGE_def Let_def)
qed

end
